theory Spec2Isabelle
  imports Complex_Main
begin

section \<open>Text: Python strings as lists of Unicode code points\<close>

text \<open>
  A Python \<open>str\<close> is a sequence of Unicode code points, so a string is a list of
  integers (the values of \<open>ord\<close>) and \<open>length\<close> counts what \<open>len\<close> counts.
  \<open>u\<close> turns an ASCII literal into that form.
\<close>

type_synonym ustr = "int list"

definition u :: "string \<Rightarrow> ustr" where
  "u s = map of_char s"

text \<open>
  \<open>str.isspace\<close> on one code point. \<open>str.strip()\<close> and the regular expression class
  \<open>\s\<close> (on a \<open>str\<close> pattern) both use this predicate: U+0009..U+000D,
  U+001C..U+0020, U+0085, U+00A0, U+1680, U+2000..U+200A, U+2028, U+2029, U+202F,
  U+205F, U+3000.
\<close>

definition isspace :: "int \<Rightarrow> bool" where
  "isspace c \<longleftrightarrow>
     (9 \<le> c \<and> c \<le> 13) \<or> (28 \<le> c \<and> c \<le> 32) \<or> c = 133 \<or> c = 160 \<or> c = 5760 \<or>
     (8192 \<le> c \<and> c \<le> 8202) \<or> c = 8232 \<or> c = 8233 \<or> c = 8239 \<or> c = 8287 \<or>
     c = 12288"

text \<open>\<open>s.strip()\<close>: drop the leading and the trailing run of whitespace.\<close>

definition strip :: "ustr \<Rightarrow> ustr" where
  "strip s = rev (dropWhile isspace (rev (dropWhile isspace s)))"

text \<open>
  The character class \<open>[<>:"/\\|?*\x00-\x1F]\<close> of both sanitizers:
  \<open><\<close> 60, \<open>>\<close> 62, \<open>:\<close> 58, \<open>"\<close> 34, \<open>/\<close> 47, \<open>\\<close> 92, \<open>|\<close> 124, \<open>?\<close> 63, \<open>*\<close> 42
  and the control characters 0..31.
\<close>

definition illegal :: "int \<Rightarrow> bool" where
  "illegal c \<longleftrightarrow>
     c = 60 \<or> c = 62 \<or> c = 58 \<or> c = 34 \<or> c = 47 \<or> c = 92 \<or> c = 124 \<or> c = 63 \<or>
     c = 42 \<or> (0 \<le> c \<and> c \<le> 31)"

text \<open>\<open>re.sub(r'[<>:"/\\|?*\x00-\x1F]', "_", name)\<close>: every illegal character becomes \<open>_\<close> (95).\<close>

definition sub_illegal :: "ustr \<Rightarrow> ustr" where
  "sub_illegal s = map (\<lambda>c. if illegal c then 95 else c) s"

text \<open>\<open>re.sub(r"\s+", " ", name)\<close>: every maximal run of whitespace becomes one space (32).\<close>

function collapse_ws :: "ustr \<Rightarrow> ustr" where
  "collapse_ws [] = []"
| "collapse_ws (c # cs) =
     (if isspace c then 32 # collapse_ws (dropWhile isspace cs) else c # collapse_ws cs)"
  by pat_completeness auto
termination
  by (relation "measure length") (auto simp: length_dropWhile_le le_imp_less_Suc)

text \<open>
  \<open>html.unescape\<close> of the standard library returns its argument unchanged when it holds
  no \<open>&\<close> (38) and otherwise substitutes the character references; the substitution
  (\<open>_charref.sub(_replace_charref, s)\<close>, a table of the library) is the parameter
  \<open>charref\<close>.
\<close>

definition unescape :: "(ustr \<Rightarrow> ustr) \<Rightarrow> ustr \<Rightarrow> ustr" where
  "unescape charref s = (if 38 \<in> set s then charref s else s)"

section \<open>Filename sanitizers\<close>

text \<open>
  \<^verbatim>\<open>
  def sanitize_filename(name):
      name = html.unescape(name).strip()
      name = re.sub(r'[<>:"/\\|?*\x00-\x1F]', "_", name)
      name = re.sub(r"\s+", " ", name)
      return name[:180] or "document"
  \<close>
\<close>

definition sanitize_filename :: "(ustr \<Rightarrow> ustr) \<Rightarrow> ustr \<Rightarrow> ustr" where
  "sanitize_filename charref name =
     (let name1 = strip (unescape charref name);
          name2 = sub_illegal name1;
          name3 = collapse_ws name2;
          r = take 180 name3
      in if r = [] then u ''document'' else r)"

text \<open>
  \<^verbatim>\<open>
  def sanitize_for_fs(name):
      name = re.sub(r'[<>:"/\\|?*\x00-\x1F]', "_", name).strip()
      name = re.sub(r"\s+", " ", name)
      return name[:120] or "query"
  \<close>
\<close>

definition sanitize_for_fs :: "ustr \<Rightarrow> ustr" where
  "sanitize_for_fs name =
     (let name1 = strip (sub_illegal name);
          name2 = collapse_ws name1;
          r = take 120 name2
      in if r = [] then u ''query'' else r)"

section \<open>Library services\<close>

text \<open>
  The exceptions of the model. An exception that no \<open>try\<close> of the program catches ends
  the process with status 1.
\<close>

datatype error = ConnectionError | HTTPError | OSError | PdfError | ValueError

text \<open>
  The functions of the Python standard library that the program calls and that are tables
  or parsers of their own are parameters of the model, collected in one record:
  \<open>str.lower\<close>, \<open>str.upper\<close>, \<open>str.capitalize\<close>, the character-reference
  substitution of \<open>html.unescape\<close>, \<open>urllib.parse.urlparse\<close> (its \<open>path\<close> and
  \<open>query\<close> components), \<open>urllib.parse.urljoin\<close> and \<open>mimetypes.guess_extension\<close>.
  \<open>urlparse\<close> and \<open>urljoin\<close> raise \<open>ValueError\<close> on a malformed URL (an unclosed
  bracket in the host, for one), so their results are sums.
\<close>

record parsed_url =
  url_path :: ustr
  url_query :: ustr

record pylib =
  lower :: "ustr \<Rightarrow> ustr"
  upper :: "ustr \<Rightarrow> ustr"
  capitalize :: "ustr \<Rightarrow> ustr"
  charref :: "ustr \<Rightarrow> ustr"
  urlparse :: "ustr \<Rightarrow> error + parsed_url"
  urljoin :: "ustr \<Rightarrow> ustr \<Rightarrow> error + ustr"
  guess_extension :: "ustr \<Rightarrow> ustr option"

text \<open>\<open>needle in hay\<close>, \<open>s.startswith(p)\<close> and \<open>s.endswith(p)\<close> on strings.\<close>

definition startswith :: "ustr \<Rightarrow> ustr \<Rightarrow> bool" where
  "startswith s p \<longleftrightarrow> take (length p) s = p"

definition endswith :: "ustr \<Rightarrow> ustr \<Rightarrow> bool" where
  "endswith s p \<longleftrightarrow> length p \<le> length s \<and> drop (length s - length p) s = p"

fun contains :: "ustr \<Rightarrow> ustr \<Rightarrow> bool" where
  "contains [] needle = (needle = [])"
| "contains (c # cs) needle = (startswith (c # cs) needle \<or> contains cs needle)"

section \<open>Extension of a download\<close>

text \<open>
  \<^verbatim>\<open>
  def is_pdf_href(href):
      parsed = urlparse(href)
      path = (parsed.path or "").lower()
      query = (parsed.query or "").lower()
      return ".pdf" in path or ".pdf" in query or href.lower().endswith(".pdf")
  \<close>
\<close>

definition is_pdf_href :: "pylib \<Rightarrow> ustr \<Rightarrow> error + bool" where
  "is_pdf_href L href =
     (case urlparse L href of
        Inl e \<Rightarrow> Inl e
      | Inr parsed \<Rightarrow>
          (let path = lower L (url_path parsed);
               query = lower L (url_query parsed)
           in Inr (contains path (u ''.pdf'') \<or> contains query (u ''.pdf'') \<or>
                   endswith (lower L href) (u ''.pdf''))))"

text \<open>
  \<open>os.path.splitext\<close> and \<open>os.path.join\<close> in their POSIX form (\<open>posixpath\<close>: separator
  \<open>/\<close> 47, extension separator \<open>.\<close> 46). \<open>rfind\<close> is \<open>str.rfind\<close> of one character,
  \<open>-1\<close> when it does not occur. \<open>splitext\<close> splits at the last dot after the last
  separator, unless only dots stand between the separator and that dot.
\<close>

definition rfind :: "ustr \<Rightarrow> int \<Rightarrow> int" where
  "rfind s c =
     (if c \<in> set s then int (length s) - 1 - int (length (takeWhile (\<lambda>x. x \<noteq> c) (rev s)))
      else - 1)"

definition splitext :: "ustr \<Rightarrow> ustr \<times> ustr" where
  "splitext p =
     (let sepIndex = rfind p 47;
          dotIndex = rfind p 46;
          filenameIndex = sepIndex + 1
      in if dotIndex > sepIndex \<and>
            list_ex (\<lambda>c. c \<noteq> 46)
              (take (nat (dotIndex - filenameIndex)) (drop (nat filenameIndex) p))
         then (take (nat dotIndex) p, drop (nat dotIndex) p)
         else (p, []))"

definition join :: "ustr \<Rightarrow> ustr \<Rightarrow> ustr" where
  "join a b =
     (if startswith b (u ''/'') then b
      else if a = [] \<or> endswith a (u ''/'') then a @ b
      else a @ u ''/'' @ b)"

text \<open>
  \<^verbatim>\<open>
  def guess_ext(content_type, url):
      if is_pdf_href(url):
          return ".pdf"
      if content_type:
          ct = content_type.split(";")[0].strip().lower()
          if ct == "application/pdf":
              return ".pdf"
          ext = (mimetypes.guess_extension(ct) or "").lower()
          if ext:
              return ext
      ext = os.path.splitext(urlparse(url).path)[1].lower()
      return ext if ext else ".bin"
  \<close>
  \<open>content_type\<close> is \<open>None\<close> when the response has no such header. Each \<open>return\<close>
  is a branch; \<open>from_type\<close> is what the block under \<open>if content_type\<close> returns,
  \<open>None\<close> when control falls through it.
\<close>

definition guess_ext :: "pylib \<Rightarrow> ustr option \<Rightarrow> ustr \<Rightarrow> error + ustr" where
  "guess_ext L content_type url =
     (case is_pdf_href L url of
        Inl e \<Rightarrow> Inl e
      | Inr pdf \<Rightarrow>
          if pdf then Inr (u ''.pdf'')
          else let from_type =
                     (case content_type of
                        None \<Rightarrow> None
                      | Some c \<Rightarrow>
                          if c = [] then None
                          else let ct = lower L (strip (takeWhile (\<lambda>x. x \<noteq> 59) c))
                               in if ct = u ''application/pdf'' then Some (u ''.pdf'')
                                  else let ext = lower L (case guess_extension L ct of
                                                            None \<Rightarrow> [] | Some e \<Rightarrow> e)
                                       in if ext \<noteq> [] then Some ext else None)
               in case from_type of
                    Some ext \<Rightarrow> Inr ext
                  | None \<Rightarrow>
                      (case urlparse L url of
                         Inl e \<Rightarrow> Inl e
                       | Inr parsed \<Rightarrow>
                           (let ext = lower L (snd (splitext (url_path parsed)))
                            in Inr (if ext \<noteq> [] then ext else u ''.bin''))))"

text \<open>
  The extension as the specification words it, written on its own: an ordered chain of
  candidates, of which the first that is not empty is taken. The candidates are \<open>.pdf\<close>
  when the declared type is exactly \<open>application/pdf\<close>, what the generic mapping gives
  for the declared type, the extension implied by the URL path, and the generic binary
  extension. The declared type is the header's value up to the first \<open>;\<close>, trimmed and in
  lower case; a missing or empty header declares nothing. It is compared with
  \<open>guess_ext\<close> below.
\<close>

definition spec_declared :: "pylib \<Rightarrow> ustr option \<Rightarrow> ustr option" where
  "spec_declared L header =
     (if header = None \<or> header = Some [] then None
      else Some (lower L (strip (takeWhile (\<lambda>x. x \<noteq> 59) (the header)))))"

definition spec_candidates :: "pylib \<Rightarrow> ustr option \<Rightarrow> ustr \<Rightarrow> ustr list" where
  "spec_candidates L header url_path_text =
     [if spec_declared L header = Some (u ''application/pdf'') then u ''.pdf'' else [],
      (case spec_declared L header of
         None \<Rightarrow> []
       | Some t \<Rightarrow> (case guess_extension L t of None \<Rightarrow> [] | Some e \<Rightarrow> lower L e)),
      lower L (snd (splitext url_path_text)),
      u ''.bin'']"

definition spec_guess_ext :: "pylib \<Rightarrow> ustr option \<Rightarrow> ustr \<Rightarrow> ustr" where
  "spec_guess_ext L header url_path_text =
     hd (filter (\<lambda>e. e \<noteq> []) (spec_candidates L header url_path_text))"

text \<open>
  Library values for the examples: lower-casing of the Latin letters A..Z and the Russian
  letters, a \<open>urlparse\<close> for URLs of the shape \<open>scheme://host/path?query#fragment\<close> or
  \<open>path?query#fragment\<close>, a \<open>urljoin\<close> for absolute references, and the two entries
  of the MIME table the examples use. On the strings of the examples they agree with the
  Python library.
\<close>

definition lower_basic :: "ustr \<Rightarrow> ustr" where
  "lower_basic s =
     map (\<lambda>c. if (65 \<le> c \<and> c \<le> 90) \<or> (1040 \<le> c \<and> c \<le> 1071) then c + 32 else c) s"

definition upper_basic :: "ustr \<Rightarrow> ustr" where
  "upper_basic s =
     map (\<lambda>c. if (97 \<le> c \<and> c \<le> 122) \<or> (1072 \<le> c \<and> c \<le> 1103) then c - 32 else c) s"

definition capitalize_basic :: "ustr \<Rightarrow> ustr" where
  "capitalize_basic s = upper_basic (take 1 s) @ lower_basic (drop 1 s)"

fun after_authority :: "ustr \<Rightarrow> ustr" where
  "after_authority (a # b # c # rest) =
     (if a = 58 \<and> b = 47 \<and> c = 47 then dropWhile (\<lambda>x. x \<noteq> 47) rest
      else after_authority (b # c # rest))"
| "after_authority s = []"

definition urlparse_basic :: "ustr \<Rightarrow> parsed_url" where
  "urlparse_basic url =
     (let nofrag = takeWhile (\<lambda>x. x \<noteq> 35) url;
          hier = takeWhile (\<lambda>x. x \<noteq> 63) nofrag;
          q = drop 1 (dropWhile (\<lambda>x. x \<noteq> 63) nofrag)
      in \<lparr>url_path = (if contains hier (u ''://'') then after_authority hier else hier),
          url_query = q\<rparr>)"

text \<open>
  \<open>urlparse\<close> and \<open>urljoin\<close> raise on a URL with an opening bracket and no closing
  one, as the library does for such a host.
\<close>

definition urlparse_checked :: "ustr \<Rightarrow> error + parsed_url" where
  "urlparse_checked url =
     (if 91 \<in> set url \<and> 93 \<notin> set url then Inl ValueError else Inr (urlparse_basic url))"

definition urljoin_checked :: "ustr \<Rightarrow> ustr \<Rightarrow> error + ustr" where
  "urljoin_checked base href =
     (if 91 \<in> set href \<and> 93 \<notin> set href then Inl ValueError else Inr href)"

definition guess_extension_basic :: "ustr \<Rightarrow> ustr option" where
  "guess_extension_basic ct =
     (if ct = u ''text/html'' then Some (u ''.html'')
      else if ct = u ''application/pdf'' then Some (u ''.pdf'')
      else None)"

text \<open>
  The character-reference substitution on the references \<open>&amp;\<close> and \<open>&lt;\<close>, read
  from left to right; an ampersand that starts neither stays.
\<close>

function charref_basic :: "ustr \<Rightarrow> ustr" where
  "charref_basic [] = []"
| "charref_basic (c # cs) =
     (if startswith (c # cs) (u ''&amp;'') then 38 # charref_basic (drop 4 cs)
      else if startswith (c # cs) (u ''&lt;'') then 60 # charref_basic (drop 3 cs)
      else c # charref_basic cs)"
  by pat_completeness auto
termination
  by (relation "measure length") auto

declare charref_basic.simps [simp del]

definition basic_lib :: pylib where
  "basic_lib =
     \<lparr>lower = lower_basic, upper = upper_basic, capitalize = capitalize_basic,
      charref = charref_basic, urlparse = urlparse_checked, urljoin = urljoin_checked,
      guess_extension = guess_extension_basic\<rparr>"

section \<open>Collision-free names and the download\<close>

text \<open>
  The downloader sees the file system through \<open>os.path\<close>: paths are strings, a regular
  file has its bytes, and \<open>os.path.exists\<close> holds of files and directories alike.
\<close>

record dfs =
  files :: "ustr \<rightharpoonup> int list"
  dirs :: "ustr set"

definition path_exists :: "dfs \<Rightarrow> ustr \<Rightarrow> bool" where
  "path_exists fs p \<longleftrightarrow> files fs p \<noteq> None \<or> p \<in> dirs fs"

text \<open>
  \<open>os.path.dirname\<close> (POSIX): everything up to the last separator, without the
  separators at its end unless it consists of separators only. A file can be created in
  a directory that exists; the working directory (the empty \<open>dirname\<close>) and the root do.
\<close>

definition dirname :: "ustr \<Rightarrow> ustr" where
  "dirname p =
     (let head = take (nat (rfind p 47 + 1)) p
      in if head \<noteq> [] \<and> \<not> list_all (\<lambda>c. c = 47) head
         then rev (dropWhile (\<lambda>c. c = 47) (rev head))
         else head)"

definition parent_exists :: "dfs \<Rightarrow> ustr \<Rightarrow> bool" where
  "parent_exists fs p \<longleftrightarrow> list_all (\<lambda>c. c = 47) (dirname p) \<or> dirname p \<in> dirs fs"

text \<open>
  \<open>os.makedirs(path, exist_ok=True)\<close> makes the directory and its missing ancestors and
  raises when the path or one of its ancestors is a regular file. \<open>path_prefixes\<close> lists
  the ancestors (the path cut before each separator) and the path itself.
  \<^verbatim>\<open>
  def today_folder(base_dir):
      d = datetime.now().strftime("%d.%m.%Y")
      path = os.path.join(base_dir, d)
      os.makedirs(path, exist_ok=True)
      return path
  \<close>
  The formatted date \<open>d\<close> is a parameter.
\<close>

definition path_prefixes :: "ustr \<Rightarrow> ustr list" where
  "path_prefixes p =
     map (\<lambda>i. take i p) (filter (\<lambda>i. 0 < i \<and> p ! i = 47) [0..<length p]) @ [p]"

definition makedirs :: "ustr \<Rightarrow> dfs \<Rightarrow> error + dfs" where
  "makedirs path fs =
     (if list_ex (\<lambda>q. files fs q \<noteq> None) (path_prefixes path) then Inl OSError
      else Inr (fs\<lparr>dirs := dirs fs \<union> set (path_prefixes path)\<rparr>))"

text \<open>\<open>str(i)\<close> of a natural number: its decimal digits (\<open>0\<close> is 48).\<close>

function str_nat :: "nat \<Rightarrow> ustr" where
  "str_nat n = (if n < 10 then [48 + int n] else str_nat (n div 10) @ [48 + int (n mod 10)])"
  by pat_completeness auto
termination
  by (relation "measure (\<lambda>n. n)") auto

declare str_nat.simps [simp del]

text \<open>
  \<^verbatim>\<open>
  def unique_path(folder, stem, ext):
      p = os.path.join(folder, f"{stem}{ext}")
      if not os.path.exists(p):
          return p
      i = 1
      while True:
          cand = os.path.join(folder, f"{stem} ({i}){ext}")
          if not os.path.exists(cand):
              return cand
          i += 1
  \<close>
  The loop has no bound of its own: \<open>None\<close> is the run that never returns.
\<close>

definition cand :: "ustr \<Rightarrow> ustr \<Rightarrow> ustr \<Rightarrow> nat \<Rightarrow> ustr" where
  "cand folder stem ext i = join folder (stem @ u '' ('' @ str_nat i @ u '')'' @ ext)"

partial_function (option) unique_loop ::
  "(ustr \<Rightarrow> bool) \<Rightarrow> ustr \<Rightarrow> ustr \<Rightarrow> ustr \<Rightarrow> nat \<Rightarrow> ustr option" where
  "unique_loop ex folder stem ext i =
     (if \<not> ex (cand folder stem ext i) then Some (cand folder stem ext i)
      else unique_loop ex folder stem ext (i + 1))"

declare unique_loop.simps [code]

definition unique_path :: "dfs \<Rightarrow> ustr \<Rightarrow> ustr \<Rightarrow> ustr \<Rightarrow> ustr option" where
  "unique_path fs folder stem ext =
     (let p = join folder (stem @ ext)
      in if \<not> path_exists fs p then Some p
         else unique_loop (path_exists fs) folder stem ext 1)"

text \<open>
  The transport (\<open>session.get\<close> with its retries) is a parameter: for a URL it raises or
  gives a response, of which the model keeps whether \<open>raise_for_status\<close> passes, the
  \<open>Content-Type\<close> header and the body.
\<close>

record response =
  status_ok :: bool
  content_type :: "ustr option"
  body :: "int list"

type_synonym transport = "ustr \<Rightarrow> error + response"

text \<open>
  \<^verbatim>\<open>
  def download(session, file_url, dest_path):
      with session.get(file_url, stream=True, ...) as r:
          r.raise_for_status()
          ext = guess_ext(r.headers.get("Content-Type"), file_url)
          stem, _ = os.path.splitext(dest_path)
          dest_path = f"{stem}{ext}"
          tmp = dest_path + ".part"
          with open(tmp, "wb") as f:
              shutil.copyfileobj(r.raw, f)
          os.replace(tmp, dest_path)
      return dest_path
  \<close>
  \<open>guess_ext\<close> may raise (through \<open>urlparse\<close>). \<open>open(tmp, "wb")\<close> creates or
  truncates the file \<open>tmp\<close> and raises when the directory of \<open>tmp\<close> does not exist or
  \<open>tmp\<close> is a directory; \<open>os.replace\<close> moves \<open>tmp\<close> over \<open>dest_path\<close>, replacing a
  file that is there, and raises when \<open>dest_path\<close> is a directory. The body is taken to
  arrive whole.
\<close>

definition download :: "pylib \<Rightarrow> transport \<Rightarrow> dfs \<Rightarrow> ustr \<Rightarrow> ustr \<Rightarrow> dfs \<times> (error + ustr)" where
  "download L get fs file_url dest_path =
     (case get file_url of
        Inl e \<Rightarrow> (fs, Inl e)
      | Inr r \<Rightarrow>
          if \<not> status_ok r then (fs, Inl HTTPError)
          else (case guess_ext L (content_type r) file_url of
                  Inl e \<Rightarrow> (fs, Inl e)
                | Inr ext \<Rightarrow>
                    (let stem = fst (splitext dest_path);
                         dest = stem @ ext;
                         tmp = dest @ u ''.part''
                     in if \<not> parent_exists fs tmp \<or> tmp \<in> dirs fs then (fs, Inl OSError)
                        else let fs1 = fs\<lparr>files := (files fs)(tmp \<mapsto> body r)\<rparr>
                             in if dest \<in> dirs fs1 then (fs1, Inl OSError)
                                else (fs1\<lparr>files := ((files fs1)(tmp := None))(dest \<mapsto> body r)\<rparr>,
                                      Inr dest))))"

section \<open>HTML tree\<close>

text \<open>
  The parsed page as BeautifulSoup presents it: a tag has a name, attributes and children,
  a string is a leaf. \<open>descendants\<close> lists what is below a node in document order;
  \<open>find_all\<close> keeps the tags with one of the given names, \<open>find\<close> is its first result,
  \<open>find_a_href\<close> is \<open>find("a", href=True)\<close> and \<open>get_text\<close> is
  \<open>get_text(" ", strip=True)\<close>: the stripped non-empty strings joined by one space.
\<close>

datatype node = Tag ustr "(ustr \<times> ustr) list" "node list" | NavigableString ustr

fun descendants :: "node \<Rightarrow> node list" where
  "descendants (NavigableString s) = []"
| "descendants (Tag n a cs) = concat (map (\<lambda>c. c # descendants c) cs)"

fun is_tag :: "ustr list \<Rightarrow> node \<Rightarrow> bool" where
  "is_tag names (Tag n a cs) = (n \<in> set names)"
| "is_tag names (NavigableString s) = False"

definition find_all :: "ustr list \<Rightarrow> node \<Rightarrow> node list" where
  "find_all names t = filter (is_tag names) (descendants t)"

definition find :: "ustr \<Rightarrow> node \<Rightarrow> node option" where
  "find name t = (case find_all [name] t of [] \<Rightarrow> None | x # xs \<Rightarrow> Some x)"

fun get_attr :: "node \<Rightarrow> ustr \<Rightarrow> ustr option" where
  "get_attr (Tag n a cs) k = map_of a k"
| "get_attr (NavigableString s) k = None"

definition find_all_a_href :: "node \<Rightarrow> node list" where
  "find_all_a_href t = filter (\<lambda>d. get_attr d (u ''href'') \<noteq> None) (find_all [u ''a''] t)"

definition find_a_href :: "node \<Rightarrow> node option" where
  "find_a_href t = (case find_all_a_href t of [] \<Rightarrow> None | x # xs \<Rightarrow> Some x)"

fun string_of :: "node \<Rightarrow> ustr list" where
  "string_of (NavigableString s) = (if strip s = [] then [] else [strip s])"
| "string_of (Tag n a cs) = []"

fun join_with :: "ustr \<Rightarrow> ustr list \<Rightarrow> ustr" where
  "join_with sep [] = []"
| "join_with sep [x] = x"
| "join_with sep (x # y # ys) = x @ sep @ join_with sep (y # ys)"

definition get_text :: "node \<Rightarrow> ustr" where
  "get_text t = join_with (u '' '') (concat (map string_of (descendants t)))"

section \<open>Table and column classifier\<close>

text \<open>
  \<^verbatim>\<open>
  def normalize_text(s):
      if s is None:
          return ""
      s = s.replace("\u00A0", " ").replace("\u200b", " ").replace("\ufeff", " ")
      s = re.sub(r"\s+", " ", s.strip())
      return s.lower()
  \<close>
  The argument is always the result of \<open>get_text\<close>, a string.
\<close>

definition normalize_text :: "pylib \<Rightarrow> ustr \<Rightarrow> ustr" where
  "normalize_text L s =
     (let s1 = map (\<lambda>c. if c = 160 \<or> c = 8203 \<or> c = 65279 then 32 else c) s;
          s2 = collapse_ws (strip s1)
      in lower L s2)"

text \<open>The designation marker, the Cyrillic letters of the substring the headers are searched for.\<close>

definition marker :: ustr where
  "marker = [1086, 1073, 1086, 1079, 1085]"

text \<open>
  The header row: the first \<open>tr\<close> of \<open>thead\<close> when there is a \<open>thead\<close>; if that gives
  nothing, the first \<open>tr\<close> that has cells and a \<open>th\<close>, else the first \<open>tr\<close> that has
  cells. \<open>scan_header\<close> is the \<open>for tr in table.find_all("tr")\<close> loop, its second
  argument the \<open>header_row\<close> found so far.
\<close>

fun scan_header :: "node list \<Rightarrow> node option \<Rightarrow> node option" where
  "scan_header [] header_row = header_row"
| "scan_header (tr # trs) header_row =
     (if find_all [u ''th'', u ''td''] tr = [] then scan_header trs header_row
      else if find (u ''th'') tr \<noteq> None then Some tr
      else scan_header trs (if header_row = None then Some tr else header_row))"

definition header_row_of :: "node \<Rightarrow> node option" where
  "header_row_of table =
     (let header_row = (case find (u ''thead'') table of
                          None \<Rightarrow> None
                        | Some thead \<Rightarrow> find (u ''tr'') thead)
      in if header_row = None then scan_header (find_all [u ''tr''] table) None
         else header_row)"


definition headers_of :: "pylib \<Rightarrow> node \<Rightarrow> ustr list" where
  "headers_of L table =
     (case header_row_of table of
        None \<Rightarrow> []
      | Some r \<Rightarrow> map (\<lambda>c. normalize_text L (get_text c)) (find_all [u ''th'', u ''td''] r))"

text \<open>
  \<open>for idx, h in enumerate(headers): if marker in h: return idx\<close>: the index of the first
  element that satisfies the test.
\<close>

fun first_index :: "('a \<Rightarrow> bool) \<Rightarrow> 'a list \<Rightarrow> nat option" where
  "first_index P [] = None"
| "first_index P (x # xs) =
     (if P x then Some 0 else map_option Suc (first_index P xs))"

text \<open>
  The link-count heuristic. \<open>max_cols\<close> is the largest number of cells of a row (0 for no
  rows); \<open>link_count\<close> is the inner loop for one column, over \<open>rows[1:]\<close>;
  \<open>max_key\<close> is \<open>max(range(n), key=...)\<close>, which keeps the first of several maxima.
\<close>

definition cells_of :: "node \<Rightarrow> node list" where
  "cells_of r = find_all [u ''td'', u ''th''] r"

definition max_cols :: "node list \<Rightarrow> nat" where
  "max_cols rows = fold max (map (\<lambda>r. length (cells_of r)) rows) 0"

definition has_link :: "node list \<Rightarrow> nat \<Rightarrow> bool" where
  "has_link cells col \<longleftrightarrow> col < length cells \<and> find_a_href (cells ! col) \<noteq> None"

definition link_count :: "node list \<Rightarrow> nat \<Rightarrow> nat" where
  "link_count rows col = length (filter (\<lambda>r. has_link (cells_of r) col) (drop 1 rows))"

definition link_counts :: "node list \<Rightarrow> nat list" where
  "link_counts rows = map (link_count rows) [0..<max_cols rows]"

fun max_key :: "(nat \<Rightarrow> nat) \<Rightarrow> nat \<Rightarrow> nat list \<Rightarrow> nat" where
  "max_key key best [] = best"
| "max_key key best (x # xs) = max_key key (if key x > key best then x else best) xs"

definition heuristic_col :: "node \<Rightarrow> nat option" where
  "heuristic_col table =
     (let counts = link_counts (find_all [u ''tr''] table)
      in if list_ex (\<lambda>c. c > 0) counts
         then Some (max_key (\<lambda>i. counts ! i) 0 [1..<length counts])
         else None)"

definition detect_designation_col :: "pylib \<Rightarrow> node \<Rightarrow> nat option" where
  "detect_designation_col L table =
     (case first_index (\<lambda>h. contains h marker) (headers_of L table) of
        Some idx \<Rightarrow> Some idx
      | None \<Rightarrow> heuristic_col table)"

text \<open>
  \<^verbatim>\<open>
  def find_target_table(soup):
      tables = soup.find_all("table")
      for i, t in enumerate(tables, 1):
          idx = detect_designation_col(t)
          if idx is not None:
              return t, idx
      return None, None
  \<close>
\<close>

fun first_table :: "pylib \<Rightarrow> node list \<Rightarrow> (node \<times> nat) option" where
  "first_table L [] = None"
| "first_table L (t # ts) =
     (case detect_designation_col L t of
        Some idx \<Rightarrow> Some (t, idx)
      | None \<Rightarrow> first_table L ts)"

definition find_target_table :: "pylib \<Rightarrow> node \<Rightarrow> (node \<times> nat) option" where
  "find_target_table L soup = first_table L (find_all [u ''table''] soup)"

section \<open>Row extraction and the downloader's main\<close>

text \<open>
  \<^verbatim>\<open>
  def pick_pdf_link_from_cell(cell):
      for a in cell.find_all("a", href=True):
          if is_pdf_href(a["href"]):
              return a
      return cell.find("a", href=True)
  \<close>
\<close>

definition href_of :: "node \<Rightarrow> ustr" where
  "href_of a = (case get_attr a (u ''href'') of None \<Rightarrow> [] | Some h \<Rightarrow> h)"

fun first_pdf_link :: "pylib \<Rightarrow> node list \<Rightarrow> error + node option" where
  "first_pdf_link L [] = Inr None"
| "first_pdf_link L (a # as) =
     (case is_pdf_href L (href_of a) of
        Inl e \<Rightarrow> Inl e
      | Inr pdf \<Rightarrow> if pdf then Inr (Some a) else first_pdf_link L as)"

definition pick_pdf_link_from_cell :: "pylib \<Rightarrow> node \<Rightarrow> error + node option" where
  "pick_pdf_link_from_cell L cell =
     (case first_pdf_link L (find_all_a_href cell) of
        Inl e \<Rightarrow> Inl e
      | Inr (Some a) \<Rightarrow> Inr (Some a)
      | Inr None \<Rightarrow> Inr (find_a_href cell))"

text \<open>
  The body of the loop of \<open>extract_rows\<close> for one \<open>tr\<close>: the pair it appends, nothing
  when the row is skipped, or the exception of \<open>is_pdf_href\<close>. \<open>ONLY_PDF\<close> is the
  module's constant; 8470 is the numero sign.
\<close>

definition ONLY_PDF :: bool where
  "ONLY_PDF = True"

definition row_ref :: "pylib \<Rightarrow> nat \<Rightarrow> node \<Rightarrow> error + (ustr \<times> ustr) list" where
  "row_ref L designation_idx tr =
     (let cells = cells_of tr
      in if length cells \<le> designation_idx then Inr []
         else let cell = cells ! designation_idx;
                  designation_raw = normalize_text L (get_text cell)
              in if contains designation_raw marker \<or> designation_raw = [] \<or>
                    designation_raw = [8470] then Inr []
                 else case pick_pdf_link_from_cell L cell of
                        Inl e \<Rightarrow> Inl e
                      | Inr None \<Rightarrow> Inr []
                      | Inr (Some a) \<Rightarrow>
                          (let href = strip (href_of a)
                           in case (if ONLY_PDF then is_pdf_href L href else Inr True) of
                                Inl e \<Rightarrow> Inl e
                              | Inr pdf \<Rightarrow>
                                  if \<not> pdf then Inr []
                                  else Inr [(sanitize_filename (charref L) (get_text cell),
                                             href)]))"

fun extract_loop ::
  "pylib \<Rightarrow> nat \<Rightarrow> node list \<Rightarrow> (ustr \<times> ustr) list \<Rightarrow> error + (ustr \<times> ustr) list" where
  "extract_loop L designation_idx [] rows_out = Inr rows_out"
| "extract_loop L designation_idx (tr # trs) rows_out =
     (case row_ref L designation_idx tr of
        Inl e \<Rightarrow> Inl e
      | Inr new \<Rightarrow> extract_loop L designation_idx trs (rows_out @ new))"

definition extract_rows :: "pylib \<Rightarrow> node \<Rightarrow> nat \<Rightarrow> error + (ustr \<times> ustr) list" where
  "extract_rows L table designation_idx =
     extract_loop L designation_idx (find_all [u ''tr''] table) []"

text \<open>
  The download loop of \<open>main\<close>, with the counters \<open>ok\<close> and \<open>err\<close>:
  \<^verbatim>\<open>
  for designation, href in rows:
      file_url = urljoin(URL, href)
      dest = unique_path(target_dir, designation, ".pdf")
      try:
          saved = download(sess, file_url, dest)
          ok += 1
      except Exception as e:
          err += 1
  \<close>
  \<open>urljoin\<close> stands before the \<open>try\<close>: its exception ends the loop and the program.
  The result is \<open>None\<close> when \<open>unique_path\<close> does not return, else the file system
  left and either the uncaught exception or the counters.
\<close>

definition URL :: ustr where
  "URL = u ''https://new-shop.ksm.kz/egfntd/ntdgo/kds/4.php''"

fun download_all ::
  "pylib \<Rightarrow> transport \<Rightarrow> ustr \<Rightarrow> (ustr \<times> ustr) list \<Rightarrow> dfs \<times> nat \<times> nat \<Rightarrow>
     (dfs \<times> (error + nat \<times> nat)) option" where
  "download_all L get target_dir [] (fs, ok, err) = Some (fs, Inr (ok, err))"
| "download_all L get target_dir ((designation, href) # rows) (fs, ok, err) =
     (case urljoin L URL href of
        Inl e \<Rightarrow> Some (fs, Inl e)
      | Inr file_url \<Rightarrow>
          (case unique_path fs target_dir designation (u ''.pdf'') of
             None \<Rightarrow> None
           | Some dest \<Rightarrow>
               (case download L get fs file_url dest of
                  (fs', Inr saved) \<Rightarrow> download_all L get target_dir rows (fs', ok + 1, err)
                | (fs', Inl e) \<Rightarrow> download_all L get target_dir rows (fs', ok, err + 1))))"

text \<open>
  \<open>main\<close> of the downloader, as the exit status of the process and the file system it
  leaves. \<open>page\<close> is the outcome of the \<open>try\<close> block that fetches the catalogue page,
  parsed; \<open>base_dir\<close> is \<open>BASE_DIR\<close> and \<open>d\<close> the formatted date of the run. The
  exceptions of \<open>extract_rows\<close>, \<open>today_folder\<close> and \<open>urljoin\<close> are caught nowhere
  and end the process with status 1.
\<close>

definition download_main ::
  "pylib \<Rightarrow> transport \<Rightarrow> error + node \<Rightarrow> ustr \<Rightarrow> ustr \<Rightarrow> dfs \<Rightarrow> (dfs \<times> nat) option" where
  "download_main L get page base_dir d fs =
     (case page of
        Inl e \<Rightarrow> Some (fs, 1)
      | Inr soup \<Rightarrow>
          (case find_target_table L soup of
             None \<Rightarrow> Some (fs, 2)
           | Some (table, designation_idx) \<Rightarrow>
               (case extract_rows L table designation_idx of
                  Inl e \<Rightarrow> Some (fs, 1)
                | Inr rows \<Rightarrow>
                    if rows = [] then Some (fs, 3)
                    else (case makedirs (join base_dir d) fs of
                            Inl e \<Rightarrow> Some (fs, 1)
                          | Inr fs1 \<Rightarrow>
                              (case download_all L get (join base_dir d) rows (fs1, 0, 0) of
                                 None \<Rightarrow> None
                               | Some (fs', Inl e) \<Rightarrow> Some (fs', 1)
                               | Some (fs', Inr counters) \<Rightarrow> Some (fs', 0))))))"

section \<open>Rectangles and their deduplication\<close>

text \<open>
  A coordinate is a float; every finite float is a rational number, and the model computes
  with its exact value. \<open>round(x, 2)\<close> rounds the exact value to the nearest multiple of
  1/100, a tie going to the even multiple; \<open>round2\<close> is the number of hundredths of the
  result, which identifies the rounded float for coordinates of a page's size.
\<close>

record rect =
  x0 :: rat
  y0 :: rat
  x1 :: rat
  y1 :: rat

definition round_half_even :: "rat \<Rightarrow> int" where
  "round_half_even q =
     (let f = \<lfloor>q\<rfloor>; d = q - of_int f
      in if d < 1 / 2 then f
         else if d > 1 / 2 then f + 1
         else if even f then f else f + 1)"

definition round2 :: "rat \<Rightarrow> int" where
  "round2 x = round_half_even (x * 100)"

definition key :: "rect \<Rightarrow> int \<times> int \<times> int \<times> int" where
  "key r = (round2 (x0 r), round2 (y0 r), round2 (x1 r), round2 (y1 r))"

text \<open>
  \<^verbatim>\<open>
  def _dedup_rects(rects):
      seen = set()
      out = []
      for r in rects:
          key = (round(r.x0, 2), round(r.y0, 2), round(r.x1, 2), round(r.y1, 2))
          if key in seen:
              continue
          seen.add(key)
          out.append(r)
      return out
  \<close>
\<close>

fun dedup_loop ::
  "rect list \<Rightarrow> (int \<times> int \<times> int \<times> int) set \<Rightarrow> rect list \<Rightarrow> rect list" where
  "dedup_loop [] seen out = out"
| "dedup_loop (r # rs) seen out =
     (if key r \<in> seen then dedup_loop rs seen out
      else dedup_loop rs (insert (key r) seen) (out @ [r]))"

definition dedup_rects :: "rect list \<Rightarrow> rect list" where
  "dedup_rects rects = dedup_loop rects {} []"

section \<open>Search and highlight\<close>

text \<open>
  The PDF engine is a parameter: opening a path gives the pages or raises, a page is
  searched for a string (\<open>page.search_for\<close>, with or without the flag), adding a
  highlight and saving may raise. The set of case variants is iterated in an order Python
  does not fix; the model takes the order of the source's set display, without repeats.
\<close>

type_synonym ppath = "ustr list"

record 'p pdf_engine =
  fitz_open :: "ppath \<Rightarrow> error + 'p list"
  search_for :: "'p \<Rightarrow> ustr \<Rightarrow> rect list"
  add_highlight_ok :: "'p \<Rightarrow> rect \<Rightarrow> bool"
  save_ok :: "ppath \<Rightarrow> bool"

definition variants :: "pylib \<Rightarrow> ustr \<Rightarrow> ustr list" where
  "variants L query = remdups [query, lower L query, upper L query, capitalize L query]"

definition search_rects :: "'p pdf_engine \<Rightarrow> pylib \<Rightarrow> 'p \<Rightarrow> ustr \<Rightarrow> rect list" where
  "search_rects E L page query =
     dedup_rects (concat (map (search_for E page) (variants L query)))"

text \<open>
  The searcher sees the file system through \<open>pathlib\<close>: a path is the list of its parts,
  \<open>out_dir / name\<close> appends a part, \<open>pdf_path.name\<close> is the last part. A saved file is
  the list of the document's pages, each with the highlights added to it.
  \<open>mkdir(parents=True, exist_ok=True)\<close> makes the directory and its missing ancestors
  and raises when the path or one of its ancestors is a regular file.
\<close>

record 'p sfs =
  sfiles :: "ppath \<rightharpoonup> ('p \<times> rect list) list"
  sdirs :: "ppath set"

definition name_of :: "ppath \<Rightarrow> ustr" where
  "name_of p = (if p = [] then [] else last p)"

definition ancestors_and_self :: "ppath \<Rightarrow> ppath list" where
  "ancestors_and_self d = map (\<lambda>n. take n d) [1..<Suc (length d)]"

definition mkdir_parents :: "ppath \<Rightarrow> 'p sfs \<Rightarrow> error + 'p sfs" where
  "mkdir_parents d fs =
     (if list_ex (\<lambda>q. sfiles fs q \<noteq> None) (ancestors_and_self d) then Inl OSError
      else Inr (fs\<lparr>sdirs := sdirs fs \<union> set (ancestors_and_self d)\<rparr>))"

text \<open>The inner loop of \<open>highlight_file\<close>: one highlight and one hit per rectangle.\<close>

fun annotate :: "'p pdf_engine \<Rightarrow> 'p \<Rightarrow> rect list \<Rightarrow> nat \<Rightarrow> error + nat" where
  "annotate E page [] hits = Inr hits"
| "annotate E page (r # rs) hits =
     (if add_highlight_ok E page r then annotate E page rs (hits + 1) else Inl PdfError)"

text \<open>
  The loop over the pages; \<open>for page in doc\<close> gives the pages with \<open>page.number\<close>
  0, 1, 2, ... The state is \<open>hits\<close>, \<open>pages\<close> and the document as annotated so far.
\<close>

fun highlight_pages ::
  "'p pdf_engine \<Rightarrow> pylib \<Rightarrow> ustr \<Rightarrow> (nat \<times> 'p) list \<Rightarrow>
     nat \<times> nat set \<times> ('p \<times> rect list) list \<Rightarrow>
     error + (nat \<times> nat set \<times> ('p \<times> rect list) list)" where
  "highlight_pages E L query [] st = Inr st"
| "highlight_pages E L query ((number, page) # ps) (hits, pages, doc) =
     (let rects = search_rects E L page query
      in if rects = [] then highlight_pages E L query ps (hits, pages, doc @ [(page, [])])
         else (case annotate E page rects hits of
                 Inl e \<Rightarrow> Inl e
               | Inr hits' \<Rightarrow>
                   highlight_pages E L query ps
                     (hits', insert (number + 1) pages, doc @ [(page, rects)])))"

text \<open>
  \<^verbatim>\<open>
  def highlight_file(pdf_path, query, out_dir, color=(1, 1, 0)):
      hits = 0
      pages = set()
      out_path = None
      doc = fitz.open(pdf_path)
      try:
          for page in doc:
              ...
          if hits > 0:
              out_dir.mkdir(parents=True, exist_ok=True)
              out_path = out_dir / pdf_path.name
              doc.save(out_path, deflate=True, garbage=4)
      finally:
          doc.close()
      return hits, pages, out_path
  \<close>
  The result is the file system left behind and either the exception raised or the
  triple returned.
\<close>

definition highlight_file ::
  "'p pdf_engine \<Rightarrow> pylib \<Rightarrow> 'p sfs \<Rightarrow> ppath \<Rightarrow> ustr \<Rightarrow> ppath \<Rightarrow>
     'p sfs \<times> (error + nat \<times> nat set \<times> ppath option)" where
  "highlight_file E L fs pdf_path query out_dir =
     (case fitz_open E pdf_path of
        Inl e \<Rightarrow> (fs, Inl e)
      | Inr doc \<Rightarrow>
          (case highlight_pages E L query (zip [0..<length doc] doc) (0, {}, []) of
             Inl e \<Rightarrow> (fs, Inl e)
           | Inr (hits, pages, annotated) \<Rightarrow>
               if hits > 0 then
                 (case mkdir_parents out_dir fs of
                    Inl e \<Rightarrow> (fs, Inl e)
                  | Inr fs1 \<Rightarrow>
                      (let out_path = out_dir @ [name_of pdf_path]
                       in if save_ok E out_path
                          then (fs1\<lparr>sfiles := (sfiles fs1)(out_path \<mapsto> annotated)\<rparr>,
                                Inr (hits, pages, Some out_path))
                          else (fs1, Inl PdfError)))
               else (fs, Inr (hits, pages, None))))"




section \<open>Auxiliary predicates\<close>

text \<open>
  A string is tidy when each of its whitespace characters is a single space that is
  followed by no other whitespace: the shape \<open>collapse_ws\<close> produces.
\<close>

fun tidy :: "ustr \<Rightarrow> bool" where
  "tidy [] = True"
| "tidy [c] = (isspace c \<longrightarrow> c = 32)"
| "tidy (c # d # cs) = ((isspace c \<longrightarrow> c = 32 \<and> \<not> isspace d) \<and> tidy (d # cs))"

section \<open>Example pages, servers and directories\<close>

text \<open>Constructors for the trees of the examples.\<close>

definition td_tag :: "node list \<Rightarrow> node" where
  "td_tag cs = Tag (u ''td'') [] cs"

definition th_tag :: "node list \<Rightarrow> node" where
  "th_tag cs = Tag (u ''th'') [] cs"

definition tr_tag :: "node list \<Rightarrow> node" where
  "tr_tag cs = Tag (u ''tr'') [] cs"

definition text_node :: "string \<Rightarrow> node" where
  "text_node s = NavigableString (u s)"

definition link :: "string \<Rightarrow> string \<Rightarrow> node" where
  "link href s = Tag (u ''a'') [(u ''href'', u href)] [text_node s]"

text \<open>
  A catalogue page with one table: the header \<open>th\<close> reads the Russian word for
  designation, and two rows carry the same designation \<open>X\<close> with the links
  \<open>a.pdf/../1\<close> and \<open>a.pdf/../2\<close>. Both links pass \<open>is_pdf_href\<close>; \<open>urljoin\<close>
  removes the dot segments, so that the URLs fetched are \<open>.../kds/1\<close> and
  \<open>.../kds/2\<close> (\<open>dotseg_lib\<close> holds these two values of \<open>urljoin\<close>). The server
  answers both with \<open>Content-Type: text/html\<close> and the bodies \<open>[1]\<close> and \<open>[2]\<close>.
\<close>

definition two_rows_page :: node where
  "two_rows_page =
     Tag (u ''html'') []
       [Tag (u ''table'') []
          [tr_tag [th_tag [NavigableString
              [1054, 1073, 1086, 1079, 1085, 1072, 1095, 1077, 1085, 1080, 1077]]],
           tr_tag [td_tag [link ''a.pdf/../1'' ''X'']],
           tr_tag [td_tag [link ''a.pdf/../2'' ''X'']]]]"

definition dotseg_lib :: pylib where
  "dotseg_lib =
     basic_lib\<lparr>urljoin := (\<lambda>base href.
       if href = u ''a.pdf/../1'' then Inr (u ''https://new-shop.ksm.kz/egfntd/ntdgo/kds/1'')
       else if href = u ''a.pdf/../2'' then Inr (u ''https://new-shop.ksm.kz/egfntd/ntdgo/kds/2'')
       else urljoin_checked base href)\<rparr>"

definition html_server :: transport where
  "html_server url =
     Inr \<lparr>status_ok = True, content_type = Some (u ''text/html''),
          body = (if url = u ''https://new-shop.ksm.kz/egfntd/ntdgo/kds/1'' then [1] else [2])\<rparr>"

definition empty_dir :: dfs where
  "empty_dir = \<lparr>files = Map.empty, dirs = {}\<rparr>"

definition dir_d :: dfs where
  "dir_d = \<lparr>files = Map.empty, dirs = {u ''d''}\<rparr>"

section \<open>Auxiliary functions of the proofs\<close>


section \<open>Distances between rectangles\<close>

text \<open>
  Two rectangles are far apart when some pair of corresponding coordinates differs by more
  than the rounding precision 1/100, and close together when every pair differs by less.
  \<open>hits_of a b out\<close> counts the rectangles of \<open>out\<close> that carry the key of \<open>a\<close> or
  of \<open>b\<close>: the hits the two contribute.
\<close>

definition far_apart :: "rect \<Rightarrow> rect \<Rightarrow> bool" where
  "far_apart a b \<longleftrightarrow>
     \<bar>x0 a - x0 b\<bar> > 1 / 100 \<or> \<bar>y0 a - y0 b\<bar> > 1 / 100 \<or>
     \<bar>x1 a - x1 b\<bar> > 1 / 100 \<or> \<bar>y1 a - y1 b\<bar> > 1 / 100"

definition close_together :: "rect \<Rightarrow> rect \<Rightarrow> bool" where
  "close_together a b \<longleftrightarrow>
     \<bar>x0 a - x0 b\<bar> < 1 / 100 \<and> \<bar>y0 a - y0 b\<bar> < 1 / 100 \<and>
     \<bar>x1 a - x1 b\<bar> < 1 / 100 \<and> \<bar>y1 a - y1 b\<bar> < 1 / 100"

definition hits_of :: "rect \<Rightarrow> rect \<Rightarrow> rect list \<Rightarrow> nat" where
  "hits_of a b out = length (filter (\<lambda>r. key r = key a \<or> key r = key b) out)"

section \<open>Example PDF engines\<close>

text \<open>
  Two documents of two pages each (a page is its number): one without any match, one
  whose second page holds one match of \<open>torque\<close>; and an empty file system.
\<close>

definition no_match_engine :: "nat pdf_engine" where
  "no_match_engine =
     \<lparr>fitz_open = (\<lambda>p. Inr [0, 1]), search_for = (\<lambda>page q. []),
      add_highlight_ok = (\<lambda>page r. True), save_ok = (\<lambda>p. True)\<rparr>"

definition one_match_engine :: "nat pdf_engine" where
  "one_match_engine =
     \<lparr>fitz_open = (\<lambda>p. Inr [0, 1]),
      search_for = (\<lambda>page q. if page = 1 \<and> q = u ''torque''
                               then [\<lparr>x0 = 10, y0 = 20, x1 = 50, y1 = 30\<rparr>] else []),
      add_highlight_ok = (\<lambda>page r. True), save_ok = (\<lambda>p. True)\<rparr>"

definition empty_sfs :: "nat sfs" where
  "empty_sfs = \<lparr>sfiles = Map.empty, sdirs = {}\<rparr>"

section \<open>Example tables\<close>

text \<open>
  A table whose first row is a data row with a link in column 0 and whose second row is
  the header (the first row with \<open>th\<close> cells), with a link in column 1.
\<close>

definition header_second_table :: node where
  "header_second_table =
     Tag (u ''table'') []
       [tr_tag [td_tag [link ''a.pdf'' ''A''], td_tag [text_node ''x'']],
        tr_tag [th_tag [text_node ''Name''], th_tag [link ''h'' ''File'']]]"

text \<open>
  The link counts as the specification words them: per column, the rows other than the
  header row that have a link in that column's cell. They are compared with
  \<open>link_counts\<close> below.
\<close>

definition spec_link_counts :: "node \<Rightarrow> nat list" where
  "spec_link_counts table =
     (let rows = find_all [u ''tr''] table;
          data_rows = filter (\<lambda>r. header_row_of table \<noteq> Some r) rows
      in map (\<lambda>col. length (filter (\<lambda>r. has_link (cells_of r) col) data_rows))
           [0..<max_cols rows])"






section \<open>Exit statuses\<close>



section \<open>Properties of the sanitizers\<close>

lemma set_strip: "set (strip s) \<subseteq> set s"
  unfolding strip_def by (metis set_dropWhileD set_rev subsetI)

lemma dropWhile_none: "\<forall>c\<in>set t. \<not> P c \<Longrightarrow> dropWhile P t = t"
  by (cases t) auto

lemma strip_nospace: "\<forall>c\<in>set t. \<not> isspace c \<Longrightarrow> strip t = t"
  unfolding strip_def by (simp add: dropWhile_none)

lemma collapse_ws_nospace: "\<forall>c\<in>set t. \<not> isspace c \<Longrightarrow> collapse_ws t = t"
  by (induction t) auto

lemma sub_illegal_all: "\<forall>c\<in>set t. illegal c \<Longrightarrow> sub_illegal t = replicate (length t) 95"
  unfolding sub_illegal_def by (induction t) auto

lemma not_illegal_amp: "\<not> illegal 38"
  by (simp add: illegal_def)

lemma not_isspace_us: "\<not> isspace 95"
  by (simp add: isspace_def)

lemma strip_hd_last:
  "t \<noteq> [] \<Longrightarrow> \<not> isspace (hd t) \<Longrightarrow> \<not> isspace (last t) \<Longrightarrow> strip t = t"
proof -
  assume a: "t \<noteq> []" "\<not> isspace (hd t)" "\<not> isspace (last t)"
  then have "dropWhile isspace t = t" by (cases t) auto
  moreover have "dropWhile isspace (rev t) = rev t"
    using a by (cases "rev t") (auto simp: last_rev hd_rev)
  ultimately show ?thesis by (simp add: strip_def)
qed

lemma all_illegal_underscores:
  assumes "list_all illegal s"
  shows "sanitize_filename cr s =
           (if strip s = [] then u ''document'' else replicate (min 180 (length (strip s))) 95)
       \<and> sanitize_for_fs s =
           (if s = [] then u ''query'' else replicate (min 120 (length s)) 95)"
proof -
  from assms have ill: "\<forall>c\<in>set s. illegal c" by (simp add: list_all_iff)
  then have "38 \<notin> set s" using not_illegal_amp by blast
  then have un: "unescape cr s = s" by (simp add: unescape_def)
  have "\<forall>c\<in>set (strip s). illegal c" using ill set_strip by blast
  then have si: "sub_illegal (strip s) = replicate (length (strip s)) 95"
    by (rule sub_illegal_all)
  have cw: "collapse_ws (replicate n 95) = replicate n 95" for n
    by (rule collapse_ws_nospace) (simp add: not_isspace_us)
  have A: "sanitize_filename cr s =
           (if strip s = [] then u ''document'' else replicate (min 180 (length (strip s))) 95)"
    by (simp add: sanitize_filename_def un si cw Let_def min_def)
  have si2: "sub_illegal s = replicate (length s) 95" using ill by (rule sub_illegal_all)
  have st: "strip (replicate n 95) = replicate n 95" for n
    by (rule strip_nospace) (simp add: not_isspace_us)
  have B: "sanitize_for_fs s =
           (if s = [] then u ''query'' else replicate (min 120 (length s)) 95)"
    by (simp add: sanitize_for_fs_def si2 st cw Let_def min_def)
  from A B show ?thesis by (rule conjI)
qed

lemma collapse_ws_Nil: "collapse_ws t = [] \<longleftrightarrow> t = []"
  by (cases t) auto

lemma sub_illegal_Nil: "sub_illegal t = [] \<longleftrightarrow> t = []"
  by (simp add: sub_illegal_def)

text \<open>
  Claim C2, as the code has it. Whenever the cleaned name is empty the placeholder is
  substituted, and the cleaned name is empty exactly when stripping leaves nothing (of the
  decoded text in \<open>sanitize_filename\<close>, of the text after replacement in
  \<open>sanitize_for_fs\<close>); otherwise the result is the cleaned name and is not empty. An
  illegal character is replaced by an underscore, not removed, so a name made of illegal
  characters only becomes a run of underscores, cut at the length limit; it gives the
  placeholder only when it is empty or, for \<open>sanitize_filename\<close>, made of the control
  characters that are whitespace.
\<close>

theorem sanitize_placeholder:
  "(take 180 (collapse_ws (sub_illegal (strip (unescape cr s)))) = []
      \<longleftrightarrow> strip (unescape cr s) = []) \<and>
   sanitize_filename cr s =
     (if take 180 (collapse_ws (sub_illegal (strip (unescape cr s)))) = [] then u ''document''
      else take 180 (collapse_ws (sub_illegal (strip (unescape cr s))))) \<and>
   sanitize_filename cr s \<noteq> [] \<and>
   (take 120 (collapse_ws (strip (sub_illegal s))) = [] \<longleftrightarrow> strip (sub_illegal s) = []) \<and>
   sanitize_for_fs s =
     (if take 120 (collapse_ws (strip (sub_illegal s))) = [] then u ''query''
      else take 120 (collapse_ws (strip (sub_illegal s)))) \<and>
   sanitize_for_fs s \<noteq> [] \<and>
   (list_all illegal s \<longrightarrow>
      sanitize_filename cr s =
        (if strip s = [] then u ''document'' else replicate (min 180 (length (strip s))) 95) \<and>
      sanitize_for_fs s =
        (if s = [] then u ''query'' else replicate (min 120 (length s)) 95))"
proof -
  have 1: "take 180 (collapse_ws (sub_illegal (strip (unescape cr s)))) = []
             \<longleftrightarrow> strip (unescape cr s) = []"
    by (simp add: collapse_ws_Nil sub_illegal_Nil)
  have 2: "sanitize_filename cr s =
     (if take 180 (collapse_ws (sub_illegal (strip (unescape cr s)))) = [] then u ''document''
      else take 180 (collapse_ws (sub_illegal (strip (unescape cr s)))))"
    by (simp add: sanitize_filename_def Let_def)
  have d: "u ''document'' \<noteq> []" "u ''query'' \<noteq> []" by (simp_all add: u_def)
  have 3: "sanitize_filename cr s \<noteq> []"
    unfolding 2 using d by (simp del: take_eq_Nil)
  have 4: "take 120 (collapse_ws (strip (sub_illegal s))) = [] \<longleftrightarrow> strip (sub_illegal s) = []"
    by (simp add: collapse_ws_Nil)
  have 5: "sanitize_for_fs s =
     (if take 120 (collapse_ws (strip (sub_illegal s))) = [] then u ''query''
      else take 120 (collapse_ws (strip (sub_illegal s))))"
    by (simp add: sanitize_for_fs_def Let_def)
  have 6: "sanitize_for_fs s \<noteq> []"
    unfolding 5 using d by (simp del: take_eq_Nil)
  have 7: "list_all illegal s \<longrightarrow>
      sanitize_filename cr s =
        (if strip s = [] then u ''document'' else replicate (min 180 (length (strip s))) 95) \<and>
      sanitize_for_fs s =
        (if s = [] then u ''query'' else replicate (min 120 (length s)) 95)"
    using all_illegal_underscores by blast
  from 1 2 3 4 5 6 7 show ?thesis by (intro conjI)
qed

text \<open>
  A blank gives the placeholder of either sanitizer; the name \<open><>\<close> gives two
  underscores.
\<close>

theorem sanitize_placeholder_witness:
  "sanitize_filename id (u '' '') = u ''document'' \<and> sanitize_for_fs (u '' '') = u ''query'' \<and>
   list_all illegal (u ''<>'') \<and> sanitize_filename id (u ''<>'') = u ''__'' \<and>
   sanitize_for_fs (u ''<>'') = u ''__''"
proof -
  have b1: "take 180 (collapse_ws (sub_illegal (strip (unescape id (u '' ''))))) = []"
    by code_simp
  have b2: "take 120 (collapse_ws (strip (sub_illegal (u '' '')))) = []" by code_simp
  have i: "list_all illegal (u ''<>'')" by code_simp
  have s1: "strip (u ''<>'') \<noteq> []" by code_simp
  have l1: "replicate (min 180 (length (strip (u ''<>'')))) 95 = u ''__''" by code_simp
  have s2: "u ''<>'' \<noteq> []" by code_simp
  have l2: "replicate (min 120 (length (u ''<>''))) 95 = u ''__''" by code_simp
  note t1 = sanitize_placeholder [of id "u '' ''"]
  note t2 = sanitize_placeholder [of id "u ''<>''"]
  from t1 have "sanitize_filename id (u '' '') =
     (if take 180 (collapse_ws (sub_illegal (strip (unescape id (u '' ''))))) = []
      then u ''document''
      else take 180 (collapse_ws (sub_illegal (strip (unescape id (u '' ''))))))"
    by blast
  then have 1: "sanitize_filename id (u '' '') = u ''document''"
    by (simp only: b1 simp_thms if_True)
  from t1 have "sanitize_for_fs (u '' '') =
     (if take 120 (collapse_ws (strip (sub_illegal (u '' '')))) = [] then u ''query''
      else take 120 (collapse_ws (strip (sub_illegal (u '' '')))))"
    by blast
  then have 2: "sanitize_for_fs (u '' '') = u ''query''"
    by (simp only: b2 simp_thms if_True)
  from t2 i have c: "sanitize_filename id (u ''<>'') =
        (if strip (u ''<>'') = [] then u ''document''
         else replicate (min 180 (length (strip (u ''<>'')))) 95) \<and>
      sanitize_for_fs (u ''<>'') =
        (if u ''<>'' = [] then u ''query'' else replicate (min 120 (length (u ''<>''))) 95)"
    by blast
  from c have 3: "sanitize_filename id (u ''<>'') = u ''__''"
    by (simp only: s1 if_False l1)
  from c have 4: "sanitize_for_fs (u ''<>'') = u ''__''"
    by (simp only: s2 if_False l2)
  from 1 2 i 3 4 show ?thesis by (intro conjI)
qed

text \<open>
  The name \<open><>\<close> consists of illegal characters only and is not mapped to the
  placeholder.
\<close>

theorem sanitize_placeholder_counterexample:
  "list_all illegal (u ''<>'') \<and> sanitize_filename id (u ''<>'') \<noteq> u ''document''"
  by code_simp

lemma collapse_ws_hd: "collapse_ws t = d # ds \<Longrightarrow> isspace d \<Longrightarrow> t \<noteq> [] \<and> isspace (hd t)"
  by (cases t) (auto split: if_splits)

lemma dropWhile_hd_not: "dropWhile P xs = d # ds \<Longrightarrow> \<not> P d"
  by (metis hd_dropWhile list.sel(1) list.distinct(1))

lemma tidy_collapse_ws: "tidy (collapse_ws s)"
proof (induction s rule: collapse_ws.induct)
  case 1
  then show ?case by simp
next
  case (2 c cs)
  show ?case
  proof (cases "isspace c")
    case True
    with 2 have ih: "tidy (collapse_ws (dropWhile isspace cs))" by simp
    show ?thesis
    proof (cases "collapse_ws (dropWhile isspace cs)")
      case Nil
      with True show ?thesis by simp
    next
      case (Cons d ds)
      have "\<not> isspace d"
      proof
        assume "isspace d"
        with Cons have "dropWhile isspace cs \<noteq> [] \<and> isspace (hd (dropWhile isspace cs))"
          by (rule collapse_ws_hd)
        then show False by (metis hd_dropWhile)
      qed
      with True Cons ih show ?thesis by simp
    qed
  next
    case False
    with 2 have ih: "tidy (collapse_ws cs)" by simp
    from False ih show ?thesis by (cases "collapse_ws cs") auto
  qed
qed

lemma collapse_ws_tidy: "tidy t \<Longrightarrow> collapse_ws t = t"
  by (induction t rule: tidy.induct) auto

lemma tidy_take: "tidy t \<Longrightarrow> tidy (take n t)"
proof (induction t arbitrary: n rule: tidy.induct)
  case 1
  then show ?case by simp
next
  case (2 c)
  then show ?case by (cases n) auto
next
  case (3 c d cs)
  show ?case
  proof (cases n)
    case 0
    then show ?thesis by simp
  next
    case (Suc m)
    from 3 have "tidy (take m (d # cs))" by simp
    with 3 Suc show ?thesis by (cases m) auto
  qed
qed

lemma set_collapse_ws: "set (collapse_ws s) \<subseteq> insert 32 (set s)"
proof (induction s rule: collapse_ws.induct)
  case 1
  then show ?case by simp
next
  case (2 c cs)
  have "set (dropWhile isspace cs) \<subseteq> set cs" by (auto dest: set_dropWhileD)
  with 2 show ?case by (auto split: if_splits)
qed

lemma set_sub_illegal: "set (sub_illegal s) \<subseteq> insert 95 (set s)"
  by (auto simp: sub_illegal_def)

lemma sub_illegal_legal: "c \<in> set (sub_illegal s) \<Longrightarrow> \<not> illegal c"
  by (auto simp: sub_illegal_def illegal_def split: if_splits)

lemma sub_illegal_id: "\<forall>c\<in>set t. \<not> illegal c \<Longrightarrow> sub_illegal t = t"
  by (simp add: sub_illegal_def map_idI)

lemma strip_prefix: "\<exists>w. strip s @ w = dropWhile isspace s"
proof -
  let ?a = "dropWhile isspace s"
  have "rev (dropWhile isspace (rev ?a)) @ rev (takeWhile isspace (rev ?a))
          = rev (takeWhile isspace (rev ?a) @ dropWhile isspace (rev ?a))"
    by (simp only: rev_append)
  also have "\<dots> = rev (rev ?a)" by (simp only: takeWhile_dropWhile_id)
  also have "\<dots> = ?a" by (simp only: rev_rev_ident)
  finally have "strip s @ rev (takeWhile isspace (rev ?a)) = ?a" by (simp only: strip_def)
  then show ?thesis by blast
qed

lemma strip_hd: "strip s \<noteq> [] \<Longrightarrow> \<not> isspace (hd (strip s))"
proof -
  assume ne: "strip s \<noteq> []"
  obtain w where w: "strip s @ w = dropWhile isspace s" using strip_prefix by blast
  with ne have "dropWhile isspace s \<noteq> []" by (metis append_is_Nil_conv)
  then have "\<not> isspace (hd (dropWhile isspace s))" by (rule hd_dropWhile)
  moreover from ne w have "hd (dropWhile isspace s) = hd (strip s)" by (metis hd_append2)
  ultimately show ?thesis by simp
qed

lemma sub_illegal_hd: "t \<noteq> [] \<Longrightarrow> \<not> isspace (hd t) \<Longrightarrow> \<not> isspace (hd (sub_illegal t))"
  by (cases t) (auto simp: sub_illegal_def not_isspace_us)

lemma collapse_ws_hd_keep: "t \<noteq> [] \<Longrightarrow> \<not> isspace (hd t) \<Longrightarrow>
    collapse_ws t \<noteq> [] \<and> \<not> isspace (hd (collapse_ws t))"
  by (cases t) auto

lemma illegal_32: "\<not> illegal 32"
  by (simp add: illegal_def)

lemma sanitize_fixed:
  assumes "r \<noteq> []" "unescape cr r = r" "\<not> isspace (hd r)" "\<not> isspace (last r)"
    "\<forall>c\<in>set r. \<not> illegal c" "tidy r" "length r \<le> 180"
  shows "sanitize_filename cr r = r"
proof -
  have 1: "unescape cr r = r" using assms(2) .
  have 2: "strip r = r" using assms(1,3,4) by (rule strip_hd_last)
  have 3: "sub_illegal r = r" using assms(5) by (rule sub_illegal_id)
  have 4: "collapse_ws r = r" using assms(6) by (rule collapse_ws_tidy)
  show ?thesis using assms(1,7) by (simp add: sanitize_filename_def 1 2 3 4 Let_def)
qed

lemma sanitize_document: "sanitize_filename cr (u ''document'') = u ''document''"
proof -
  have "unescape cr (u ''document'') = u ''document''"
    by (simp add: unescape_def u_def)
  moreover have "take 180 (collapse_ws (sub_illegal (strip (u ''document'')))) = u ''document''"
    by code_simp
  moreover have "u ''document'' \<noteq> []" by (simp add: u_def)
  ultimately show ?thesis by (simp add: sanitize_filename_def Let_def)
qed

lemma dropWhile_last:
  "cs \<noteq> [] \<Longrightarrow> \<not> P (last cs) \<Longrightarrow> dropWhile P cs \<noteq> [] \<and> last (dropWhile P cs) = last cs"
  by (induction cs) (auto split: if_splits)

lemma strip_last: "strip s \<noteq> [] \<Longrightarrow> \<not> isspace (last (strip s))"
proof -
  assume ne: "strip s \<noteq> []"
  let ?d = "dropWhile isspace (rev (dropWhile isspace s))"
  from ne have d: "?d \<noteq> []" by (simp add: strip_def)
  then have "\<not> isspace (hd ?d)" by (rule hd_dropWhile)
  moreover have "last (strip s) = hd ?d" using d by (simp add: strip_def last_rev)
  ultimately show ?thesis by simp
qed

lemma sub_illegal_last:
  "t \<noteq> [] \<Longrightarrow> \<not> isspace (last t) \<Longrightarrow> \<not> isspace (last (sub_illegal t))"
  by (simp add: sub_illegal_def last_map not_isspace_us)

lemma collapse_ws_last:
  "t \<noteq> [] \<Longrightarrow> \<not> isspace (last t) \<Longrightarrow>
     collapse_ws t \<noteq> [] \<and> \<not> isspace (last (collapse_ws t))"
proof (induction t rule: collapse_ws.induct)
  case 1
  then show ?case by simp
next
  case (2 c cs)
  show ?case
  proof (cases "isspace c")
    case True
    with 2(4) have cs: "cs \<noteq> []" by auto
    with 2(4) have l: "\<not> isspace (last cs)" by simp
    from dropWhile_last [of cs isspace, OF cs l] have
      dn: "dropWhile isspace cs \<noteq> []" and dl: "\<not> isspace (last (dropWhile isspace cs))"
      using l by simp_all
    from 2(1) [OF True dn dl] True show ?thesis by simp
  next
    case False
    show ?thesis
    proof (cases "cs = []")
      case True
      with False show ?thesis by simp
    next
      case ne: False
      with 2(4) have "\<not> isspace (last cs)" by simp
      from 2(2) [OF False ne this] False show ?thesis by simp
    qed
  qed
qed

lemma document_last: "\<not> isspace (last (u ''document''))"
  by code_simp

text \<open>
  Claim C9, as the code has it. When decoding character references leaves the sanitized
  stem as it is and the stem does not end in whitespace, sanitizing the stem again gives
  the same stem. The stem ends in whitespace only when the cut at 180 characters falls
  right after a space: a cleaned text of at most 180 characters never does.
\<close>

theorem sanitize_idempotent:
  "(unescape cr (sanitize_filename cr s) = sanitize_filename cr s \<and>
    \<not> isspace (last (sanitize_filename cr s)) \<longrightarrow>
      sanitize_filename cr (sanitize_filename cr s) = sanitize_filename cr s) \<and>
   (length (collapse_ws (sub_illegal (strip (unescape cr s)))) \<le> 180 \<longrightarrow>
      \<not> isspace (last (sanitize_filename cr s)))"
proof (rule conjI; rule impI)
  define t where "t = collapse_ws (sub_illegal (strip (unescape cr s)))"
  define r where "r = take 180 t"
  have res: "sanitize_filename cr s = (if r = [] then u ''document'' else r)"
    by (simp add: sanitize_filename_def r_def t_def Let_def)
  {
    assume h: "unescape cr (sanitize_filename cr s) = sanitize_filename cr s \<and>
               \<not> isspace (last (sanitize_filename cr s))"
    show "sanitize_filename cr (sanitize_filename cr s) = sanitize_filename cr s"
    proof (cases "r = []")
      case True
      with res show ?thesis by (simp add: sanitize_document)
    next
      case False
      then have tne: "t \<noteq> []" by (auto simp: r_def)
      then have sne: "strip (unescape cr s) \<noteq> []" by (auto simp: t_def sub_illegal_def)
      have set_r: "set r \<subseteq> set t" by (auto simp: r_def dest: in_set_takeD)
      have set_t: "set t \<subseteq> insert 32 (set (sub_illegal (strip (unescape cr s))))"
        unfolding t_def by (rule set_collapse_ws)
      have a2: "unescape cr r = r" using h res False by simp
      have h1: "\<not> isspace (hd (strip (unescape cr s)))" using sne by (rule strip_hd)
      have h2: "\<not> isspace (hd (sub_illegal (strip (unescape cr s))))"
        using sne h1 by (rule sub_illegal_hd)
      have sne2: "sub_illegal (strip (unescape cr s)) \<noteq> []"
        using sne by (simp add: sub_illegal_def)
      have h3: "\<not> isspace (hd t)"
        unfolding t_def using collapse_ws_hd_keep [OF sne2 h2] by simp
      have a3: "\<not> isspace (hd r)" using h3 tne by (cases t) (auto simp: r_def)
      have a4: "\<not> isspace (last r)" using h res False by simp
      have a5: "\<forall>c\<in>set r. \<not> illegal c"
      proof
        fix c assume "c \<in> set r"
        with set_r set_t have "c = 32 \<or> c \<in> set (sub_illegal (strip (unescape cr s)))"
          by auto
        then show "\<not> illegal c" using illegal_32 sub_illegal_legal by blast
      qed
      have a6: "tidy r" unfolding r_def t_def by (rule tidy_take) (rule tidy_collapse_ws)
      have a7: "length r \<le> 180" by (simp add: r_def)
      have "sanitize_filename cr r = r"
        using False a2 a3 a4 a5 a6 a7 by (rule sanitize_fixed)
      with res False show ?thesis by simp
    qed
  }
  {
    assume len: "length (collapse_ws (sub_illegal (strip (unescape cr s)))) \<le> 180"
    show "\<not> isspace (last (sanitize_filename cr s))"
    proof (cases "r = []")
      case True
      with res show ?thesis by (simp add: document_last)
    next
      case False
      from len have rt: "r = t" by (simp add: r_def t_def)
      with False have tne: "t \<noteq> []" by simp
      then have sne: "strip (unescape cr s) \<noteq> []" by (auto simp: t_def sub_illegal_def)
      then have l1: "\<not> isspace (last (strip (unescape cr s)))" by (rule strip_last)
      have l2: "\<not> isspace (last (sub_illegal (strip (unescape cr s))))"
        using sne l1 by (rule sub_illegal_last)
      have sne2: "sub_illegal (strip (unescape cr s)) \<noteq> []"
        using sne by (simp add: sub_illegal_def)
      have "\<not> isspace (last t)"
        unfolding t_def using collapse_ws_last [OF sne2 l2] by simp
      with res False rt show ?thesis by simp
    qed
  }
qed

text \<open>
  \<open>R&D  2\<close> holds an ampersand that starts no character reference and is short: its
  stem \<open>R&D 2\<close> is a fixed point.
\<close>

theorem sanitize_idempotent_witness:
  "sanitize_filename charref_basic (u ''R&D  2'') = u ''R&D 2'' \<and>
   sanitize_filename charref_basic (sanitize_filename charref_basic (u ''R&D  2''))
     = sanitize_filename charref_basic (u ''R&D  2'')"
proof -
  have v: "sanitize_filename charref_basic (u ''R&D  2'') = u ''R&D 2''" by code_simp
  have a: "unescape charref_basic (sanitize_filename charref_basic (u ''R&D  2''))
             = sanitize_filename charref_basic (u ''R&D  2'')" by code_simp
  have l: "length (collapse_ws (sub_illegal (strip (unescape charref_basic (u ''R&D  2'')))))
             \<le> 180" by code_simp
  note t = sanitize_idempotent [of charref_basic "u ''R&D  2''"]
  from t l have b: "\<not> isspace (last (sanitize_filename charref_basic (u ''R&D  2'')))"
    by blast
  from t a b have c: "sanitize_filename charref_basic
      (sanitize_filename charref_basic (u ''R&D  2''))
        = sanitize_filename charref_basic (u ''R&D  2'')" by blast
  from v c show ?thesis by (rule conjI)
qed

text \<open>
  Two inputs on which a second pass changes the stem. 179 letters, a space and one more
  letter: the cut at 180 leaves the space at the end, and the second pass strips it. And
  \<open>&amp;lt;\<close>: the first pass decodes it to \<open>&lt;\<close>, which the second pass decodes to
  \<open><\<close> and replaces by an underscore.
\<close>

theorem sanitize_idempotent_counterexample:
  "sanitize_filename charref_basic
      (sanitize_filename charref_basic (u (replicate 179 CHR ''a'' @ '' b'')))
     \<noteq> sanitize_filename charref_basic (u (replicate 179 CHR ''a'' @ '' b'')) \<and>
   sanitize_filename charref_basic (u ''&amp;lt;'') = u ''&lt;'' \<and>
   sanitize_filename charref_basic (sanitize_filename charref_basic (u ''&amp;lt;'')) = u ''_''"
  by code_simp

section \<open>The extension of a download\<close>

text \<open>The chain of the specification, candidate by candidate.\<close>

lemma spec_guess_ext_pdf:
  "spec_declared L header = Some (u ''application/pdf'') \<Longrightarrow>
     spec_guess_ext L header p = u ''.pdf''"
  by (simp add: spec_guess_ext_def spec_candidates_def u_def)

lemma spec_guess_ext_mapping:
  "spec_declared L header = Some t \<Longrightarrow> t \<noteq> u ''application/pdf'' \<Longrightarrow>
     guess_extension L t = Some e \<Longrightarrow> lower L e \<noteq> [] \<Longrightarrow>
     spec_guess_ext L header p = lower L e"
  by (simp add: spec_guess_ext_def spec_candidates_def)

lemma spec_guess_ext_url:
  "spec_declared L header = None \<Longrightarrow>
     spec_guess_ext L header p =
       (if lower L (snd (splitext p)) \<noteq> [] then lower L (snd (splitext p)) else u ''.bin'')"
  by (simp add: spec_guess_ext_def spec_candidates_def u_def)

lemma spec_guess_ext_unmapped:
  "spec_declared L header = Some t \<Longrightarrow> t \<noteq> u ''application/pdf'' \<Longrightarrow>
     guess_extension L t = None \<Longrightarrow>
     spec_guess_ext L header p =
       (if lower L (snd (splitext p)) \<noteq> [] then lower L (snd (splitext p)) else u ''.bin'')"
  by (simp add: spec_guess_ext_def spec_candidates_def u_def)

lemma guess_ext_refines_spec:
  assumes "lower L [] = []" "urlparse L url = Inr parsed" "is_pdf_href L url = Inr False"
  shows "guess_ext L header url = Inr (spec_guess_ext L header (url_path parsed))"
proof (cases "header = None \<or> header = Some []")
  case True
  then have "spec_declared L header = None" by (simp add: spec_declared_def)
  then have "spec_guess_ext L header (url_path parsed) =
       (if lower L (snd (splitext (url_path parsed))) \<noteq> []
        then lower L (snd (splitext (url_path parsed))) else u ''.bin'')"
    by (rule spec_guess_ext_url)
  with True assms show ?thesis by (auto simp: guess_ext_def Let_def)
next
  case False
  then obtain c where c: "header = Some c" "c \<noteq> []" by (cases header) auto
  define t where "t = lower L (strip (takeWhile (\<lambda>x. x \<noteq> 59) c))"
  from c have d: "spec_declared L header = Some t" by (simp add: spec_declared_def t_def)
  show ?thesis
  proof (cases "t = u ''application/pdf''")
    case True
    with d have "spec_guess_ext L header (url_path parsed) = u ''.pdf''"
      by (simp add: spec_guess_ext_pdf)
    with True c assms show ?thesis by (simp add: guess_ext_def Let_def t_def)
  next
    case nopdf: False
    show ?thesis
    proof (cases "guess_extension L t")
      case None
      with d nopdf have "spec_guess_ext L header (url_path parsed) =
         (if lower L (snd (splitext (url_path parsed))) \<noteq> []
          then lower L (snd (splitext (url_path parsed))) else u ''.bin'')"
        by (simp add: spec_guess_ext_unmapped)
      with None nopdf c assms show ?thesis
        by (simp add: guess_ext_def Let_def t_def [symmetric])
    next
      case (Some e)
      show ?thesis
      proof (cases "lower L e = []")
        case True
        with d nopdf Some have "spec_guess_ext L header (url_path parsed) =
           (if lower L (snd (splitext (url_path parsed))) \<noteq> []
            then lower L (snd (splitext (url_path parsed))) else u ''.bin'')"
          by (simp add: spec_guess_ext_def spec_candidates_def u_def)
        with True Some nopdf c assms show ?thesis
          by (simp add: guess_ext_def Let_def t_def [symmetric])
      next
        case False
        with d nopdf Some have "spec_guess_ext L header (url_path parsed) = lower L e"
          by (simp add: spec_guess_ext_mapping)
        with False Some nopdf c assms show ?thesis
          by (simp add: guess_ext_def Let_def t_def [symmetric])
      qed
    qed
  qed
qed

lemma download_saved_path:
  assumes "download L get fs url dest = (fs', Inr saved)"
  shows "\<exists>r ext. get url = Inr r \<and> guess_ext L (content_type r) url = Inr ext \<and>
           saved = fst (splitext dest) @ ext \<and> files fs' saved = Some (body r)"
  using assms
  by (auto simp: download_def Let_def split: sum.splits if_splits)

text \<open>
  Claim C1, as the code has it. \<open>guess_ext\<close> asks first whether the URL looks like a PDF
  link (\<open>.pdf\<close> in its path or query, or at its end) and then answers \<open>.pdf\<close>
  whatever the content type says. For the other URLs it computes what the specification
  words: the declared content type decides (exactly \<open>application/pdf\<close>, else the MIME
  table), then the extension of the URL path, then \<open>.bin\<close>. A URL that cannot be parsed
  raises. The file \<open>download\<close> saves carries that extension in place of the one of the
  destination it was given.
\<close>

theorem guess_ext_precedence:
  "(urlparse L url = Inl e \<longrightarrow> guess_ext L header url = Inl e) \<and>
   (is_pdf_href L url = Inr True \<longrightarrow> guess_ext L header url = Inr (u ''.pdf'')) \<and>
   (lower L [] = [] \<and> urlparse L url = Inr parsed \<and> is_pdf_href L url = Inr False \<longrightarrow>
      guess_ext L header url = Inr (spec_guess_ext L header (url_path parsed))) \<and>
   (download L get fs url dest = (fs', Inr saved) \<longrightarrow>
      (\<exists>r ext. get url = Inr r \<and> guess_ext L (content_type r) url = Inr ext \<and>
                saved = fst (splitext dest) @ ext \<and> files fs' saved = Some (body r)))"
proof (intro conjI impI)
  assume "urlparse L url = Inl e"
  then show "guess_ext L header url = Inl e" by (simp add: guess_ext_def is_pdf_href_def)
next
  assume "is_pdf_href L url = Inr True"
  then show "guess_ext L header url = Inr (u ''.pdf'')" by (simp add: guess_ext_def)
next
  assume "lower L [] = [] \<and> urlparse L url = Inr parsed \<and> is_pdf_href L url = Inr False"
  then show "guess_ext L header url = Inr (spec_guess_ext L header (url_path parsed))"
    using guess_ext_refines_spec by blast
next
  assume "download L get fs url dest = (fs', Inr saved)"
  then show "\<exists>r ext. get url = Inr r \<and> guess_ext L (content_type r) url = Inr ext \<and>
                saved = fst (splitext dest) @ ext \<and> files fs' saved = Some (body r)"
    by (rule download_saved_path)
qed

text \<open>
  Four URLs that are no PDF links: without extension and served as \<open>application/pdf\<close>,
  the file is \<open>.pdf\<close>; ending in \<open>.txt\<close> and served as \<open>text/html; charset=utf-8\<close>,
  it is \<open>.html\<close>; ending in \<open>.TXT\<close> without a content type, it is \<open>.txt\<close>; without
  extension and without content type, it is \<open>.bin\<close>. A URL with an unclosed bracket
  raises. The page \<open>.../kds/1\<close> is saved in the directory \<open>d\<close> as \<open>X.html\<close> although
  the destination given is \<open>d/X.pdf\<close>.
\<close>

theorem guess_ext_precedence_witness:
  "guess_ext basic_lib (Some (u ''application/pdf'')) (u ''http://h/doc'') = Inr (u ''.pdf'') \<and>
   guess_ext basic_lib (Some (u ''text/html; charset=utf-8'')) (u ''http://h/doc.txt'')
     = Inr (u ''.html'') \<and>
   guess_ext basic_lib None (u ''http://h/doc.TXT'') = Inr (u ''.txt'') \<and>
   guess_ext basic_lib None (u ''http://h/doc'') = Inr (u ''.bin'') \<and>
   guess_ext basic_lib None (u ''http://[/doc'') = Inl ValueError \<and>
   guess_ext basic_lib (Some (u ''text/html'')) (u ''http://h/a.pdf'') = Inr (u ''.pdf'') \<and>
   snd (download basic_lib html_server dir_d (u ''https://new-shop.ksm.kz/egfntd/ntdgo/kds/1'')
          (u ''d/X.pdf'')) = Inr (u ''d/X.html'') \<and>
   files (fst (download basic_lib html_server dir_d
                 (u ''https://new-shop.ksm.kz/egfntd/ntdgo/kds/1'') (u ''d/X.pdf'')))
     (u ''d/X.html'') = Some [1]"
proof -
  have l: "lower basic_lib [] = []" by code_simp
  have p1: "urlparse basic_lib (u ''http://h/doc'') = Inr \<lparr>url_path = u ''/doc'', url_query = []\<rparr>"
    by code_simp
  have n1: "is_pdf_href basic_lib (u ''http://h/doc'') = Inr False" by code_simp
  have s1: "spec_guess_ext basic_lib (Some (u ''application/pdf'')) (u ''/doc'') = u ''.pdf''"
    by code_simp
  from guess_ext_precedence [where L = basic_lib and url = "u ''http://h/doc''"
      and header = "Some (u ''application/pdf'')"
      and parsed = "\<lparr>url_path = u ''/doc'', url_query = []\<rparr>"] l p1 n1
  have "guess_ext basic_lib (Some (u ''application/pdf'')) (u ''http://h/doc'')
          = Inr (spec_guess_ext basic_lib (Some (u ''application/pdf''))
                   (url_path \<lparr>url_path = u ''/doc'', url_query = []\<rparr>))"
    by blast
  with s1 have 1: "guess_ext basic_lib (Some (u ''application/pdf'')) (u ''http://h/doc'')
                     = Inr (u ''.pdf'')" by simp
  have 2: "guess_ext basic_lib (Some (u ''text/html; charset=utf-8'')) (u ''http://h/doc.txt'')
             = Inr (u ''.html'')" by code_simp
  have 3: "guess_ext basic_lib None (u ''http://h/doc.TXT'') = Inr (u ''.txt'')" by code_simp
  have 4: "guess_ext basic_lib None (u ''http://h/doc'') = Inr (u ''.bin'')" by code_simp
  have e: "urlparse basic_lib (u ''http://[/doc'') = Inl ValueError" by code_simp
  from guess_ext_precedence [where L = basic_lib and url = "u ''http://[/doc''"
      and header = None and e = ValueError] e
  have 5: "guess_ext basic_lib None (u ''http://[/doc'') = Inl ValueError" by blast
  have y: "is_pdf_href basic_lib (u ''http://h/a.pdf'') = Inr True" by code_simp
  from guess_ext_precedence [where L = basic_lib and url = "u ''http://h/a.pdf''"
      and header = "Some (u ''text/html'')"] y
  have 6: "guess_ext basic_lib (Some (u ''text/html'')) (u ''http://h/a.pdf'') = Inr (u ''.pdf'')"
    by blast
  let ?url = "u ''https://new-shop.ksm.kz/egfntd/ntdgo/kds/1''"
  let ?d = "download basic_lib html_server dir_d ?url (u ''d/X.pdf'')"
  have 7: "snd ?d = Inr (u ''d/X.html'')" by code_simp
  then have "?d = (fst ?d, Inr (u ''d/X.html''))" by (simp add: prod_eq_iff)
  with guess_ext_precedence [where L = basic_lib and get = html_server and fs = dir_d
      and url = ?url and dest = "u ''d/X.pdf''" and fs' = "fst ?d" and saved = "u ''d/X.html''"]
  obtain r where r: "html_server ?url = Inr r" "files (fst ?d) (u ''d/X.html'') = Some (body r)"
    by blast
  have "html_server ?url = Inr \<lparr>status_ok = True, content_type = Some (u ''text/html''),
          body = [1]\<rparr>" by code_simp
  with r(1) have "r = \<lparr>status_ok = True, content_type = Some (u ''text/html''), body = [1]\<rparr>"
    by simp
  then have "body r = [1]" by simp
  with r(2) have 8: "files (fst ?d) (u ''d/X.html'') = Some [1]" by simp
  from 1 2 3 4 5 6 7 8 show ?thesis by (intro conjI)
qed

text \<open>
  A URL ending in \<open>.pdf\<close> answered with \<open>Content-Type: text/html\<close>: the content type
  gives \<open>.html\<close>, the code \<open>.pdf\<close>.
\<close>

theorem guess_ext_counterexample:
  "guess_ext basic_lib (Some (u ''text/html'')) (u ''http://h/a.pdf'') = Inr (u ''.pdf'') \<and>
   spec_guess_ext basic_lib (Some (u ''text/html'')) (u ''/a.pdf'') = u ''.html'' \<and>
   urlparse basic_lib (u ''http://h/a.pdf'') = Inr \<lparr>url_path = u ''/a.pdf'', url_query = []\<rparr>"
  by code_simp

section \<open>Collision-free names\<close>












text \<open>
  Claim C3 at the page \<open>two_rows_page\<close>, run by \<open>main\<close> into an empty file system.
  \<open>unique_path\<close> is asked about \<open>X.pdf\<close> both times and finds it free both times,
  because \<open>download\<close> replaces the extension by \<open>.html\<close> after the check and moves the
  temporary file over whatever is there. After the first row \<open>X.html\<close> holds the first
  body; after the second it holds the second body, and no file with the suffix \<open>(1)\<close>
  exists.
\<close>

theorem download_overwrites_same_stem:
  "map_option (\<lambda>(table, idx). extract_rows dotseg_lib table idx)
     (find_target_table dotseg_lib two_rows_page)
     = Some (Inr [(u ''X'', u ''a.pdf/../1''), (u ''X'', u ''a.pdf/../2'')]) \<and>
   map_option (\<lambda>(fs, r). (r, files fs (u ''d/X.html'')))
     (download_all dotseg_lib html_server (u ''d'') [(u ''X'', u ''a.pdf/../1'')]
        (dir_d, 0, 0)) = Some (Inr (1, 0), Some [1]) \<and>
   map_option (\<lambda>(fs, r). (r, files fs (u ''d/X.html''), files fs (u ''d/X (1).html''),
                            files fs (u ''d/X.pdf''), files fs (u ''d/X (1).pdf'')))
     (download_all dotseg_lib html_server (u ''d'')
        [(u ''X'', u ''a.pdf/../1''), (u ''X'', u ''a.pdf/../2'')] (dir_d, 0, 0))
     = Some (Inr (2, 0), Some [2], None, None, None) \<and>
   map_option (\<lambda>(fs, code). (code, files fs (u ''downloads/03.11.2026/X.html''),
                               files fs (u ''downloads/03.11.2026/X (1).html''),
                               files fs (u ''downloads/03.11.2026/X.pdf''),
                               files fs (u ''downloads/03.11.2026/X (1).pdf'')))
     (download_main dotseg_lib html_server (Inr two_rows_page) (u ''downloads'')
        (u ''03.11.2026'') empty_dir)
     = Some (0, Some [2], None, None, None)"
  by code_simp

section \<open>Deduplication of rectangles\<close>

lemma round_half_even_near: "\<bar>of_int (round_half_even q) - q\<bar> \<le> 1 / 2"
proof -
  define f where "f = \<lfloor>q\<rfloor>"
  have f: "of_int f \<le> q" "q < of_int f + 1" unfolding f_def by linarith+
  show ?thesis
    unfolding round_half_even_def Let_def f_def [symmetric] using f by (auto simp: abs_if)
qed

lemma round2_far:
  assumes "\<bar>x - y\<bar> > 1 / 100"
  shows "round2 x \<noteq> round2 y"
proof
  assume e: "round2 x = round2 y"
  have a: "\<bar>of_int (round2 x) - x * 100\<bar> \<le> 1 / 2"
    unfolding round2_def by (rule round_half_even_near)
  have b: "\<bar>of_int (round2 y) - y * 100\<bar> \<le> 1 / 2"
    unfolding round2_def by (rule round_half_even_near)
  from a b e have "\<bar>x * 100 - y * 100\<bar> \<le> 1" by (simp add: abs_if split: if_splits)
  then have "\<bar>x - y\<bar> \<le> 1 / 100" by (simp add: abs_if split: if_splits)
  with assms show False by simp
qed

lemma far_apart_key: "far_apart a b \<Longrightarrow> key a \<noteq> key b"
  unfolding far_apart_def key_def using round2_far by auto

lemma dedup_loop_keys:
  assumes "seen = key ` set out" "distinct (map key out)"
  shows "distinct (map key (dedup_loop rs seen out)) \<and>
         key ` set (dedup_loop rs seen out) = seen \<union> key ` set rs \<and>
         set (dedup_loop rs seen out) \<subseteq> set out \<union> set rs"
  using assms
proof (induction rs arbitrary: seen out)
  case Nil
  then show ?case by simp
next
  case (Cons r rs)
  show ?case
  proof (cases "key r \<in> seen")
    case True
    with Cons.IH [OF Cons.prems] show ?thesis by auto
  next
    case False
    have 1: "insert (key r) seen = key ` set (out @ [r])" using Cons.prems by auto
    have 2: "distinct (map key (out @ [r]))" using Cons.prems False by auto
    from Cons.IH [OF 1 2] False show ?thesis by auto
  qed
qed

lemma dedup_rects_keys:
  "distinct (map key (dedup_rects rects)) \<and> key ` set (dedup_rects rects) = key ` set rects
   \<and> set (dedup_rects rects) \<subseteq> set rects"
  using dedup_loop_keys [of "{}" "[]" rects] by (simp add: dedup_rects_def)

lemma distinct_map_filter_one:
  "distinct (map f xs) \<Longrightarrow> k \<in> f ` set xs \<Longrightarrow> length (filter (\<lambda>x. f x = k) xs) = 1"
proof (induction xs)
  case Nil
  then show ?case by simp
next
  case (Cons x xs)
  show ?case
  proof (cases "f x = k")
    case True
    from Cons.prems have "f x \<notin> f ` set xs" by simp
    with True have "\<forall>y\<in>set xs. f y \<noteq> k" by (metis imageI)
    then have "filter (\<lambda>x. f x = k) xs = []" by (simp add: filter_empty_conv)
    with True show ?thesis by simp
  next
    case False
    with Cons show ?thesis by auto
  qed
qed

lemma filter_two_keys:
  "k1 \<noteq> k2 \<Longrightarrow>
     length (filter (\<lambda>x. f x = k1 \<or> f x = k2) xs)
       = length (filter (\<lambda>x. f x = k1) xs) + length (filter (\<lambda>x. f x = k2) xs)"
  by (induction xs) auto

text \<open>
  Claim C4, as the code has it. The identity key of a rectangle is the tuple of its
  coordinates rounded to two decimals, and the output holds one rectangle per key. Two
  rectangles of the list with the same key collapse to one hit; two rectangles with some
  coordinate more than 1/100 apart have different keys and both count. Rectangles closer
  than 1/100 collapse only when they round to the same hundredths.
\<close>

theorem dedup_by_rounded_key:
  assumes "a \<in> set rects" "b \<in> set rects"
  shows "length (dedup_rects rects) = card (key ` set rects) \<and>
         (key a = key b \<longrightarrow> hits_of a b (dedup_rects rects) = 1) \<and>
         (far_apart a b \<longrightarrow> key a \<noteq> key b \<and> hits_of a b (dedup_rects rects) = 2)"
proof -
  note k = dedup_rects_keys [of rects]
  from assms k have "key a \<in> key ` set (dedup_rects rects)" by auto
  with k have 1: "length (filter (\<lambda>r. key r = key a) (dedup_rects rects)) = 1"
    by (simp add: distinct_map_filter_one)
  from assms k have "key b \<in> key ` set (dedup_rects rects)" by auto
  with k have 2: "length (filter (\<lambda>r. key r = key b) (dedup_rects rects)) = 1"
    by (simp add: distinct_map_filter_one)
  from k have "card (key ` set (dedup_rects rects)) = length (dedup_rects rects)"
    by (metis distinct_card length_map set_map)
  with k have 3: "length (dedup_rects rects) = card (key ` set rects)" by simp
  have 4: "key a = key b \<longrightarrow> hits_of a b (dedup_rects rects) = 1"
  proof
    assume e: "key a = key b"
    have "hits_of a b (dedup_rects rects)
            = length (filter (\<lambda>r. key r = key a) (dedup_rects rects))"
      unfolding hits_of_def e by simp
    with 1 show "hits_of a b (dedup_rects rects) = 1" by simp
  qed
  have 5: "far_apart a b \<longrightarrow> key a \<noteq> key b \<and> hits_of a b (dedup_rects rects) = 2"
  proof
    assume "far_apart a b"
    then have ne: "key a \<noteq> key b" by (rule far_apart_key)
    then have "hits_of a b (dedup_rects rects) = 2"
      unfolding hits_of_def using 1 2 by (simp add: filter_two_keys)
    with ne show "key a \<noteq> key b \<and> hits_of a b (dedup_rects rects) = 2" by simp
  qed
  from 3 4 5 show ?thesis by simp
qed

theorem dedup_by_rounded_key_witness:
  "key \<lparr>x0 = 0, y0 = 0, x1 = 1, y1 = 1\<rparr> = key \<lparr>x0 = 1 / 1000, y0 = 0, x1 = 1, y1 = 1\<rparr> \<and>
   hits_of \<lparr>x0 = 0, y0 = 0, x1 = 1, y1 = 1\<rparr> \<lparr>x0 = 1 / 1000, y0 = 0, x1 = 1, y1 = 1\<rparr>
     (dedup_rects [\<lparr>x0 = 0, y0 = 0, x1 = 1, y1 = 1\<rparr>, \<lparr>x0 = 1 / 1000, y0 = 0, x1 = 1, y1 = 1\<rparr>,
                   \<lparr>x0 = 1 / 2, y0 = 0, x1 = 1, y1 = 1\<rparr>]) = 1 \<and>
   far_apart \<lparr>x0 = 0, y0 = 0, x1 = 1, y1 = 1\<rparr> \<lparr>x0 = 1 / 2, y0 = 0, x1 = 1, y1 = 1\<rparr> \<and>
   hits_of \<lparr>x0 = 0, y0 = 0, x1 = 1, y1 = 1\<rparr> \<lparr>x0 = 1 / 2, y0 = 0, x1 = 1, y1 = 1\<rparr>
     (dedup_rects [\<lparr>x0 = 0, y0 = 0, x1 = 1, y1 = 1\<rparr>, \<lparr>x0 = 1 / 1000, y0 = 0, x1 = 1, y1 = 1\<rparr>,
                   \<lparr>x0 = 1 / 2, y0 = 0, x1 = 1, y1 = 1\<rparr>]) = 2"
proof -
  let ?a = "\<lparr>x0 = 0, y0 = 0, x1 = 1, y1 = 1\<rparr>"
  let ?b = "\<lparr>x0 = 1 / 1000, y0 = 0, x1 = 1, y1 = 1\<rparr>"
  let ?c = "\<lparr>x0 = 1 / 2, y0 = 0, x1 = 1, y1 = 1\<rparr>"
  have k: "key ?a = key ?b" by code_simp
  have f: "far_apart ?a ?c" by code_simp
  have ab: "key ?a = key ?b \<longrightarrow> hits_of ?a ?b (dedup_rects [?a, ?b, ?c]) = 1"
    using dedup_by_rounded_key [of ?a "[?a, ?b, ?c]" ?b] by simp
  have ac: "far_apart ?a ?c \<longrightarrow> key ?a \<noteq> key ?c \<and> hits_of ?a ?c (dedup_rects [?a, ?b, ?c]) = 2"
    using dedup_by_rounded_key [of ?a "[?a, ?b, ?c]" ?c] by simp
  from k f ab ac show ?thesis by blast
qed

text \<open>
  The coordinates 0 and 1/128 = 0.0078125 (both exact as floats) differ by less than 1/100
  and round to 0.0 and 0.01: the two rectangles are both kept.
\<close>

theorem dedup_close_counterexample:
  "close_together \<lparr>x0 = 0, y0 = 0, x1 = 1, y1 = 1\<rparr> \<lparr>x0 = 1 / 128, y0 = 0, x1 = 1, y1 = 1\<rparr> \<and>
   dedup_rects [\<lparr>x0 = 0, y0 = 0, x1 = 1, y1 = 1\<rparr>, \<lparr>x0 = 1 / 128, y0 = 0, x1 = 1, y1 = 1\<rparr>]
     = [\<lparr>x0 = 0, y0 = 0, x1 = 1, y1 = 1\<rparr>, \<lparr>x0 = 1 / 128, y0 = 0, x1 = 1, y1 = 1\<rparr>]"
  by code_simp

section \<open>The highlighter\<close>

lemma annotate_hits: "annotate E page rs h = Inr h' \<Longrightarrow> h' = h + length rs"
proof (induction rs arbitrary: h)
  case Nil
  then show ?case by simp
next
  case (Cons r rs)
  then have "annotate E page rs (h + 1) = Inr h'" by (simp split: if_splits)
  then have "h' = h + 1 + length rs" by (rule Cons.IH)
  then show ?case by simp
qed

lemma highlight_pages_inv:
  assumes "highlight_pages E L q ps (h, P, d) = Inr (h', P', d')"
    and "P \<noteq> {} \<longleftrightarrow> h > 0" and "\<forall>p\<in>P. 1 \<le> p"
  shows "(P' \<noteq> {} \<longleftrightarrow> h' > 0) \<and> (\<forall>p\<in>P'. 1 \<le> p)"
  using assms
proof (induction ps arbitrary: h P d)
  case Nil
  then show ?case by simp
next
  case (Cons np ps)
  obtain number page where np: "np = (number, page)" by (cases np)
  show ?case
  proof (cases "search_rects E L page q = []")
    case True
    with Cons.prems np have
      "highlight_pages E L q ps (h, P, d @ [(page, [])]) = Inr (h', P', d')" by simp
    from Cons.IH [OF this Cons.prems(2,3)] show ?thesis .
  next
    case False
    with Cons.prems(1) np obtain h1 where
      a: "annotate E page (search_rects E L page q) h = Inr h1" and
      r: "highlight_pages E L q ps
            (h1, insert (number + 1) P, d @ [(page, search_rects E L page q)]) = Inr (h', P', d')"
      by (auto simp: Let_def split: sum.splits)
    from a have "h1 = h + length (search_rects E L page q)" by (rule annotate_hits)
    with False have pos: "h1 > 0" by simp
    have 1: "insert (number + 1) P \<noteq> {} \<longleftrightarrow> h1 > 0" using pos by simp
    have 2: "\<forall>p\<in>insert (number + 1) P. 1 \<le> p" using Cons.prems(3) by simp
    from Cons.IH [OF r 1 2] show ?thesis .
  qed
qed

lemma highlight_pages_no_match:
  "\<forall>np\<in>set ps. search_rects E L (snd np) q = [] \<Longrightarrow>
     \<exists>d'. highlight_pages E L q ps (h, P, d) = Inr (h, P, d')"
proof (induction ps arbitrary: d)
  case Nil
  then show ?case by simp
next
  case (Cons np ps)
  obtain number page where np: "np = (number, page)" by (cases np)
  with Cons.prems have e: "search_rects E L page q = []" by simp
  from Cons.prems have "\<forall>np\<in>set ps. search_rects E L (snd np) q = []" by simp
  from Cons.IH [OF this] np e show ?case by simp
qed

text \<open>
  Claim C10. Whenever \<open>highlight_file\<close> returns its triple, the output path is set
  exactly when there are hits, the set of pages is non-empty exactly when there are hits,
  and every page number recorded is at least 1.
\<close>

theorem highlight_result_invariant:
  assumes "snd (highlight_file E L fs pdf_path query out_dir) = Inr (hits, pages, out_path)"
  shows "(out_path \<noteq> None \<longleftrightarrow> hits > 0) \<and> (pages \<noteq> {} \<longleftrightarrow> hits > 0) \<and> (\<forall>p\<in>pages. 1 \<le> p)"
proof -
  from assms obtain doc h P d where
    o: "fitz_open E pdf_path = Inr doc" and
    hp: "highlight_pages E L query (zip [0..<length doc] doc) (0, {}, []) = Inr (h, P, d)"
    by (auto simp: highlight_file_def split: sum.splits)
  from hp have inv: "(P \<noteq> {} \<longleftrightarrow> h > 0) \<and> (\<forall>p\<in>P. 1 \<le> p)"
    by (rule highlight_pages_inv) simp_all
  from assms o hp have "hits = h \<and> pages = P \<and> (out_path \<noteq> None \<longleftrightarrow> h > 0)"
    by (auto simp: highlight_file_def Let_def split: if_splits sum.splits)
  with inv show ?thesis by simp
qed

theorem highlight_result_invariant_witness:
  "snd (highlight_file one_match_engine basic_lib empty_sfs [u ''docs'', u ''a.pdf'']
          (u ''torque'') [u ''out''])
     = Inr (1, {2}, Some [u ''out'', u ''a.pdf'']) \<and> (1::nat) \<le> 2"
proof -
  have r: "snd (highlight_file one_match_engine basic_lib empty_sfs [u ''docs'', u ''a.pdf'']
          (u ''torque'') [u ''out'']) = Inr (1, {2}, Some [u ''out'', u ''a.pdf''])"
    by code_simp
  from highlight_result_invariant [OF r] have "\<forall>p\<in>{2::nat}. 1 \<le> p" by blast
  with r show ?thesis by simp
qed

text \<open>
  Claim C5. A call of \<open>highlight_file\<close> that returns zero hits leaves the file system
  as it was (no file written, no directory made) and returns no output path; and a
  document that opens and has no match on any page does return, with zero hits.
\<close>

theorem zero_hits_no_output:
  "(highlight_file E L fs pdf_path query out_dir = (fs', Inr (0, pages, out_path))
      \<longrightarrow> fs' = fs \<and> out_path = None \<and> pages = {}) \<and>
   (fitz_open E pdf_path = Inr doc \<and> (\<forall>page\<in>set doc. search_rects E L page query = [])
      \<longrightarrow> highlight_file E L fs pdf_path query out_dir = (fs, Inr (0, {}, None)))"
proof (rule conjI; rule impI)
  assume a: "highlight_file E L fs pdf_path query out_dir = (fs', Inr (0, pages, out_path))"
  then have s: "snd (highlight_file E L fs pdf_path query out_dir) = Inr (0, pages, out_path)"
    by simp
  from highlight_result_invariant [OF s] have "out_path = None" "pages = {}" by auto
  moreover from a have "fs' = fs"
    by (auto simp: highlight_file_def Let_def split: sum.splits if_splits)
  ultimately show "fs' = fs \<and> out_path = None \<and> pages = {}" by simp
next
  assume a: "fitz_open E pdf_path = Inr doc \<and>
             (\<forall>page\<in>set doc. search_rects E L page query = [])"
  then have "\<forall>np\<in>set (zip [0..<length doc] doc). search_rects E L (snd np) query = []"
    by (auto dest: set_zip_rightD)
  then obtain d' where
    "highlight_pages E L query (zip [0..<length doc] doc) (0, {}, []) = Inr (0, {}, d')"
    using highlight_pages_no_match by blast
  with a show "highlight_file E L fs pdf_path query out_dir = (fs, Inr (0, {}, None))"
    by (simp add: highlight_file_def)
qed

theorem zero_hits_no_output_witness:
  "highlight_file no_match_engine basic_lib empty_sfs [u ''docs'', u ''a.pdf''] (u ''torque'')
      [u ''out''] = (empty_sfs, Inr (0, {}, None))"
proof -
  have o: "fitz_open no_match_engine [u ''docs'', u ''a.pdf''] = Inr [0, 1]"
    by (simp add: no_match_engine_def)
  have n0: "search_rects no_match_engine basic_lib 0 (u ''torque'') = []" by code_simp
  have n1: "search_rects no_match_engine basic_lib 1 (u ''torque'') = []" by code_simp
  have n: "\<forall>page\<in>set [0, 1::nat]. search_rects no_match_engine basic_lib page (u ''torque'') = []"
    using n0 n1 by simp
  from zero_hits_no_output [where E = no_match_engine and L = basic_lib and fs = empty_sfs
      and pdf_path = "[u ''docs'', u ''a.pdf'']" and query = "u ''torque''"
      and out_dir = "[u ''out'']" and doc = "[0, 1]"] o n
  show ?thesis by blast
qed

section \<open>The column classifier\<close>








text \<open>
  The heuristic on the counts the code computes: \<open>max_key\<close> returns the least index
  among the maxima, so \<open>heuristic_col\<close> is the least index of a maximal count when some
  count is positive, \<open>None\<close> when all are zero, and the index of a strict maximum when
  there is one.
\<close>

lemma max_key_first:
  "sorted_wrt (<) (b # xs) \<Longrightarrow>
     max_key kf b xs \<in> set (b # xs) \<and>
     (\<forall>x\<in>set (b # xs). kf x \<le> kf (max_key kf b xs) \<and>
        (kf x = kf (max_key kf b xs) \<longrightarrow> max_key kf b xs \<le> x))"
proof (induction xs arbitrary: b)
  case Nil
  then show ?case by simp
next
  case (Cons x xs)
  let ?b = "if kf x > kf b then x else b"
  let ?r = "max_key kf ?b xs"
  from Cons.prems have bx: "b < x" and s1: "sorted_wrt (<) (x # xs)" and s2: "sorted_wrt (<) (b # xs)"
    by auto
  then have "sorted_wrt (<) (?b # xs)" by simp
  from Cons.IH [OF this] have
    mem: "?r \<in> set (?b # xs)" and
    mx: "\<forall>y\<in>set (?b # xs). kf y \<le> kf ?r \<and> (kf y = kf ?r \<longrightarrow> ?r \<le> y)"
    by blast+
  have r: "max_key kf b (x # xs) = ?r" by simp
  show ?case
  proof (cases "kf x > kf b")
    case True
    with mx have kx: "kf x \<le> kf ?r" by simp
    with True have "kf b < kf ?r" by simp
    with True mem mx show ?thesis unfolding r by auto
  next
    case False
    with mx have kb: "kf b \<le> kf ?r" "kf b = kf ?r \<longrightarrow> ?r \<le> b" by simp_all
    with False bx have "kf x \<le> kf ?r" "kf x = kf ?r \<longrightarrow> ?r \<le> x" by auto
    with False mem mx show ?thesis unfolding r by auto
  qed
qed

lemma max_key_range:
  assumes "0 < n"
  shows "max_key kf 0 [1..<n] < n \<and>
         (\<forall>j<n. kf j \<le> kf (max_key kf 0 [1..<n])) \<and>
         (\<forall>j<max_key kf 0 [1..<n]. kf j < kf (max_key kf 0 [1..<n]))"
proof -
  let ?r = "max_key kf 0 [1..<n]"
  have up: "0 # [1..<n] = [0..<n]" using assms by (simp add: upt_conv_Cons)
  have "sorted_wrt (<) (0 # [1..<n])" unfolding up by simp
  from max_key_first [OF this, of kf] have
    mem: "?r \<in> set [0..<n]" and
    mx: "\<forall>x\<in>set [0..<n]. kf x \<le> kf ?r \<and> (kf x = kf ?r \<longrightarrow> ?r \<le> x)"
    unfolding up by blast+
  from mem have 1: "?r < n" by simp
  from mx have 2: "\<forall>j<n. kf j \<le> kf ?r" by simp
  have 3: "\<forall>j<?r. kf j < kf ?r"
  proof (intro allI impI)
    fix j assume j: "j < ?r"
    with 1 have "j < n" by simp
    with mx have "kf j \<le> kf ?r" "kf j = kf ?r \<longrightarrow> ?r \<le> j" by simp_all
    with j show "kf j < kf ?r" by (cases "kf j = kf ?r") auto
  qed
  from 1 2 3 show ?thesis by simp
qed

lemma heuristic_col_first_maximum:
  assumes "counts = link_counts (find_all [u ''tr''] table)"
  shows "heuristic_col table =
           (if \<exists>j<length counts. counts ! j > 0
            then Some (LEAST i. i < length counts \<and> (\<forall>j<length counts. counts ! j \<le> counts ! i))
            else None)"
proof (cases "\<exists>j<length counts. counts ! j > 0")
  case False
  then have "\<not> list_ex (\<lambda>c. c > 0) counts" by (auto simp: list_ex_iff in_set_conv_nth)
  with False assms show ?thesis by (simp add: heuristic_col_def)
next
  case True
  then have ex: "list_ex (\<lambda>c. c > 0) counts"
    unfolding list_ex_iff by (metis nth_mem)
  from True have n: "0 < length counts" by auto
  let ?r = "max_key (\<lambda>i. counts ! i) 0 [1..<length counts]"
  note m = max_key_range [OF n, of "\<lambda>i. counts ! i"]
  have "(LEAST i. i < length counts \<and> (\<forall>j<length counts. counts ! j \<le> counts ! i)) = ?r"
  proof (rule Least_equality)
    show "?r < length counts \<and> (\<forall>j<length counts. counts ! j \<le> counts ! ?r)"
      using m by simp
  next
    fix y assume y: "y < length counts \<and> (\<forall>j<length counts. counts ! j \<le> counts ! y)"
    show "?r \<le> y"
    proof (rule ccontr)
      assume "\<not> ?r \<le> y"
      then have "y < ?r" by simp
      with m have "counts ! y < counts ! ?r" by simp
      moreover from y m have "counts ! ?r \<le> counts ! y" by simp
      ultimately show False by simp
    qed
  qed
  with True ex assms show ?thesis by (simp add: heuristic_col_def Let_def)
qed

lemma heuristic_col_strict_maximum:
  assumes "counts = link_counts (find_all [u ''tr''] table)"
    and "i < length counts" and "\<forall>j<length counts. j \<noteq> i \<longrightarrow> counts ! j < counts ! i"
    and "counts ! i > 0"
  shows "heuristic_col table = Some i"
proof -
  have "(LEAST k. k < length counts \<and> (\<forall>j<length counts. counts ! j \<le> counts ! k)) = i"
  proof (rule Least_equality)
    show "i < length counts \<and> (\<forall>j<length counts. counts ! j \<le> counts ! i)"
      using assms(2,3) by (metis le_eq_less_or_eq)
  next
    fix y assume y: "y < length counts \<and> (\<forall>j<length counts. counts ! j \<le> counts ! y)"
    show "i \<le> y"
    proof (cases "y = i")
      case True
      then show ?thesis by simp
    next
      case False
      with y assms(3) have "counts ! y < counts ! i" by simp
      moreover from y assms(2) have "counts ! i \<le> counts ! y" by simp
      ultimately show ?thesis by simp
    qed
  qed
  moreover from assms(2,4) have "\<exists>j<length counts. counts ! j > 0" by blast
  ultimately show ?thesis using heuristic_col_first_maximum [OF assms(1)] by simp
qed

lemma link_counts_nth:
  "col < max_cols rows \<Longrightarrow>
     link_counts rows ! col = length (filter (\<lambda>r. has_link (cells_of r) col) (drop 1 rows))"
  by (simp add: link_counts_def link_count_def)

lemma link_counts_length: "length (link_counts rows) = max_cols rows"
  by (simp add: link_counts_def)

text \<open>
  Claim C6 at \<open>header_second_table\<close>. No header cell contains the marker. Among the
  rows other than the header row, column 0 has one linked cell and column 1 none, so the
  claim gives column 0. The code counts over \<open>rows[1:]\<close>, which drops the first row (the
  data row) and keeps the header row: its counts are 0 and 1, and it returns column 1.
\<close>

theorem heuristic_counts_header_row:
  "header_row_of header_second_table
     = Some (tr_tag [th_tag [text_node ''Name''], th_tag [link ''h'' ''File'']]) \<and>
   headers_of basic_lib header_second_table = [u ''name'', u ''file''] \<and>
   spec_link_counts header_second_table = [1, 0] \<and>
   link_counts (find_all [u ''tr''] header_second_table) = [0, 1] \<and>
   detect_designation_col basic_lib header_second_table = Some 1"
  by code_simp

section \<open>Exit statuses of the two programs\<close>





end
